theory Spec2Isabelle
  imports Complex_Main "HOL-Library.Word" "HOL-Library.Log_Nat"
begin

section \<open>Results and errors\<close>

text \<open>
  The C code has no error returns. What can stop it is a failed \<^verbatim>\<open>assert\<close> and an
  access past the end of a fixed-size array. Each is a value of \<open>error\<close>.
\<close>

datatype error = AssertionFailed | IndexOutOfBounds nat

definition seq :: "error + 'a \<Rightarrow> ('a \<Rightarrow> error + 'b) \<Rightarrow> error + 'b" where
  "seq r f = (case r of Inl e \<Rightarrow> Inl e | Inr x \<Rightarrow> f x)"

section \<open>The GPU context\<close>

text \<open>
  A \<^verbatim>\<open>WGPUBuffer\<close> is a handle; \<open>None\<close> is the null handle and \<open>Some n\<close> names the
  \<open>n\<close>-th buffer the device has created. The device keeps the bytes of every buffer;
  the queue keeps the list of write calls it has received, in order. The context also
  holds the size of the surface and what \<^verbatim>\<open>wgpuAdapterGetLimits\<close> reports for the adapter:
  \<open>None\<close> when the call fails, else \<^verbatim>\<open>maxStorageBufferBindingSize\<close> and
  \<^verbatim>\<open>maxTextureDimension2D\<close>.
  Host memory passed by pointer is the list of bytes readable at that pointer,
  \<open>None\<close> for a null pointer.
\<close>

type_synonym byte = "8 word"
type_synonym WGPUBuffer = "nat option"
type_synonym host_ptr = "byte list option"

datatype buffer_usage = Storage | CopySrc | CopyDst | Uniform | Vertex

record gpu_buffer =
  gb_usage :: "buffer_usage set"
  gb_data :: "byte list"

datatype queue_call = QueueWriteBuffer WGPUBuffer nat host_ptr nat

record wgpu_context =
  device_buffers :: "gpu_buffer list"
  queue_calls :: "queue_call list"
  surface_width :: "32 word"
  surface_height :: "32 word"
  adapter_limits :: "(64 word \<times> 64 word) option"

record wgpu_buffer_t =
  wb_buffer :: WGPUBuffer
  wb_usage :: "buffer_usage set"
  wb_size :: nat

record wgpu_buffer_desc_t =
  desc_usage :: "buffer_usage set"
  desc_size :: nat
  desc_initial_data :: host_ptr

text \<open>
  \<^verbatim>\<open>wgpuDeviceCreateBuffer\<close> belongs to the WebGPU library: a new buffer of the
  requested usage and size, zero-filled, and its handle.
\<close>

definition wgpuDeviceCreateBuffer ::
  "wgpu_context \<Rightarrow> buffer_usage set \<Rightarrow> nat \<Rightarrow> WGPUBuffer \<times> wgpu_context" where
  "wgpuDeviceCreateBuffer ctx usage n =
     (Some (length (device_buffers ctx)),
      ctx\<lparr>device_buffers := device_buffers ctx @ [\<lparr>gb_usage = usage, gb_data = replicate n 0\<rparr>]\<rparr>)"

text \<open>
  Modelled from the spec: \<^verbatim>\<open>wgpu_queue_write_buffer\<close> is defined outside the sources at
  hand. The spec lists it among the services of the GPU context as a host-to-device buffer
  write. The call is recorded on the queue. It takes effect when the handle names a
  buffer of the device, the host pointer is not null and has \<open>n\<close> readable bytes, and
  the range \<open>off ..< off + n\<close> lies inside the buffer: then these bytes of the buffer
  become the first \<open>n\<close> host bytes. Otherwise the bytes of the device stay as they are.
\<close>

definition write_bytes :: "byte list \<Rightarrow> nat \<Rightarrow> byte list \<Rightarrow> nat \<Rightarrow> byte list" where
  "write_bytes old off src n = take off old @ take n src @ drop (off + n) old"

definition wgpu_queue_write_buffer ::
  "wgpu_context \<Rightarrow> WGPUBuffer \<Rightarrow> nat \<Rightarrow> host_ptr \<Rightarrow> nat \<Rightarrow> wgpu_context" where
  "wgpu_queue_write_buffer ctx buf off data n =
     (let bufs = device_buffers ctx;
          bufs' = (case (buf, data) of
                     (Some b, Some src) \<Rightarrow>
                       if b < length bufs \<and> n \<le> length src
                          \<and> off + n \<le> length (gb_data (bufs ! b))
                       then bufs[b := (bufs ! b)\<lparr>gb_data := write_bytes (gb_data (bufs ! b)) off src n\<rparr>]
                       else bufs
                   | _ \<Rightarrow> bufs)
      in ctx\<lparr>device_buffers := bufs',
             queue_calls := queue_calls ctx @ [QueueWriteBuffer buf off data n]\<rparr>)"

text \<open>
  Modelled from the spec: \<^verbatim>\<open>wgpu_create_buffer\<close> is defined outside the sources at hand.
  By the spec it allocates a buffer of the described usage and byte size and uploads the
  initial value if there is one: the first bytes of the new buffer are the host bytes
  (as many as fit), the rest is zero.
\<close>

definition wgpu_create_buffer ::
  "wgpu_context \<Rightarrow> wgpu_buffer_desc_t \<Rightarrow> wgpu_buffer_t \<times> wgpu_context" where
  "wgpu_create_buffer ctx desc =
     (let n = desc_size desc;
          bytes = (case desc_initial_data desc of
                     None \<Rightarrow> replicate n 0
                   | Some src \<Rightarrow> take n src @ replicate (n - length src) 0)
      in (\<lparr>wb_buffer = Some (length (device_buffers ctx)),
           wb_usage = desc_usage desc, wb_size = n\<rparr>,
          ctx\<lparr>device_buffers := device_buffers ctx @ [\<lparr>gb_usage = desc_usage desc, gb_data = bytes\<rparr>]\<rparr>))"

section \<open>Dynamic buffer\<close>

definition MAX_DIMENSIONS :: nat where
  "MAX_DIMENSIONS = 3"

text \<open>
  \<^verbatim>\<open>dynamic_buffer_t\<close>. The struct also stores the pointer to the one GPU context of the
  program; here the context is passed to every operation and returned updated.
  \<open>buffers\<close> is the array of \<open>MAX_DIMENSIONS\<close> entries.
\<close>

record dynamic_buffer_t =
  dims :: "32 word"
  buffer_size :: "32 word"
  db_w :: "32 word"
  db_h :: "32 word"
  buffers :: "wgpu_buffer_t list"

definition null_buffer :: wgpu_buffer_t where
  "null_buffer = \<lparr>wb_buffer = None, wb_usage = {}, wb_size = 0\<rparr>"

definition dynamic_buffer_init_defaults :: dynamic_buffer_t where
  "dynamic_buffer_init_defaults =
     \<lparr>dims = 0, buffer_size = 0, db_w = 0, db_h = 0,
      buffers = replicate MAX_DIMENSIONS null_buffer\<rparr>"

text \<open>
  The allocation loop of \<^verbatim>\<open>dynamic_buffer_init\<close>. The counter is a \<^verbatim>\<open>uint32_t\<close>; it stays
  below \<open>dims\<close>, so the increment never wraps. Storing to \<^verbatim>\<open>buffers[dim]\<close> with
  \<^verbatim>\<open>dim >= MAX_DIMENSIONS\<close> is a write past the end of the array.
\<close>

function dynamic_buffer_init_loop ::
  "32 word \<Rightarrow> dynamic_buffer_t \<Rightarrow> wgpu_context \<Rightarrow> error + dynamic_buffer_t \<times> wgpu_context" where
  "dynamic_buffer_init_loop k this ctx =
     (if k < dims this then
        (let usage = {Storage, CopySrc, CopyDst};
             sz = unat (buffer_size this);
             (b, ctx') = wgpuDeviceCreateBuffer ctx usage sz
         in if unat k < MAX_DIMENSIONS
            then dynamic_buffer_init_loop (k + 1)
                   (this\<lparr>buffers := (buffers this)
                      [unat k := \<lparr>wb_buffer = b, wb_usage = usage, wb_size = sz\<rparr>]\<rparr>) ctx'
            else Inl (IndexOutOfBounds (unat k)))
      else Inr (this, ctx))"
  by pat_completeness auto
termination
proof (relation "measure (\<lambda>(k, this, ctx). unat (dims this) - unat k)")
  show "wf (measure (\<lambda>(k, this, ctx). unat (dims this) - unat k))"
    by simp
next
  fix k :: "32 word" and this :: dynamic_buffer_t and ctx :: wgpu_context
    and usage sz x b ctx'
  assume lt: "k < dims this"
  then have a: "unat k < unat (dims this)"
    by (simp add: word_less_nat_alt)
  have "unat (dims this) < 2 ^ LENGTH(32)"
    by (rule unsigned_less)
  with a have "unat k + 1 < 2 ^ LENGTH(32)"
    by linarith
  then have "unat k + unat (1 :: 32 word) < 2 ^ LENGTH(32)"
    by simp
  then have "unat (k + 1) = unat k + unat (1 :: 32 word)"
    by (rule unat_add_lem [THEN iffD1])
  with a show "((k + 1, this\<lparr>buffers := (buffers this)
        [unat k := \<lparr>wb_buffer = b, wb_usage = usage, wb_size = sz\<rparr>]\<rparr>, ctx'), k, this, ctx)
      \<in> measure (\<lambda>(k, this, ctx). unat (dims this) - unat k)"
    by simp
qed

declare dynamic_buffer_init_loop.simps [simp del]

text \<open>
  \<^verbatim>\<open>dynamic_buffer_init\<close>. \<open>ndebug\<close> tells whether the program was compiled with
  \<^verbatim>\<open>NDEBUG\<close>, which removes the \<^verbatim>\<open>assert\<close>. The struct is cleared first, so the result
  does not depend on what it held before. \<open>w * h * 4\<close> is computed in \<^verbatim>\<open>uint32_t\<close>.
\<close>

definition dynamic_buffer_init ::
  "bool \<Rightarrow> wgpu_context \<Rightarrow> 32 word \<Rightarrow> 32 word \<Rightarrow> 32 word
     \<Rightarrow> error + dynamic_buffer_t \<times> wgpu_context" where
  "dynamic_buffer_init ndebug ctx d w h =
     (let this = dynamic_buffer_init_defaults
                   \<lparr>dims := d, buffer_size := w * h * 4, db_w := w, db_h := h\<rparr>
      in if \<not> ndebug \<and> \<not> unat d \<le> MAX_DIMENSIONS then Inl AssertionFailed
         else dynamic_buffer_init_loop 0 this ctx)"

text \<open>Reading \<^verbatim>\<open>buffers[i]\<close>: past the end of the array it is an error.\<close>

definition buffer_at :: "dynamic_buffer_t \<Rightarrow> 32 word \<Rightarrow> error + wgpu_buffer_t" where
  "buffer_at this i =
     (if unat i < MAX_DIMENSIONS then Inr (buffers this ! unat i)
      else Inl (IndexOutOfBounds (unat i)))"

text \<open>
  \<^verbatim>\<open>dynamic_buffer_copy_to\<close>. The command encoder is the list of the commands recorded
  on it. \<^verbatim>\<open>MAX\<close> and \<^verbatim>\<open>MIN\<close> are the usual macros, here on unsigned 32-bit values;
  \<open>dims - 1\<close> wraps when \<open>dims\<close> is 0.
\<close>

datatype encoder_command = CopyBufferToBuffer WGPUBuffer nat WGPUBuffer nat nat

function dynamic_buffer_copy_to_loop ::
  "32 word \<Rightarrow> dynamic_buffer_t \<Rightarrow> dynamic_buffer_t \<Rightarrow> encoder_command list
     \<Rightarrow> error + encoder_command list" where
  "dynamic_buffer_copy_to_loop i this buffer command_encoder =
     (if i < max (dims this) (dims buffer) then
        seq (buffer_at this (min i (dims this - 1))) (\<lambda>src.
        seq (buffer_at buffer (min i (dims buffer - 1))) (\<lambda>dst.
          dynamic_buffer_copy_to_loop (i + 1) this buffer
            (command_encoder @
               [CopyBufferToBuffer (wb_buffer src) 0 (wb_buffer dst) 0 (unat (buffer_size this))])))
      else Inr command_encoder)"
  by pat_completeness auto
termination
proof (relation "measure (\<lambda>(i, this, buffer, enc). unat (max (dims this) (dims buffer)) - unat i)")
  show "wf (measure (\<lambda>(i, this, buffer, enc). unat (max (dims this) (dims buffer)) - unat i))"
    by simp
next
  fix i :: "32 word" and this buffer :: dynamic_buffer_t
    and command_encoder :: "encoder_command list" and src dst :: wgpu_buffer_t
  let ?n = "max (dims this) (dims buffer)"
  assume lt: "i < ?n"
  then have a: "unat i < unat ?n"
    by (simp add: word_less_nat_alt)
  have "unat ?n < 2 ^ LENGTH(32)"
    by (rule unsigned_less)
  with a have "unat i + 1 < 2 ^ LENGTH(32)"
    by linarith
  then have "unat i + unat (1 :: 32 word) < 2 ^ LENGTH(32)"
    by simp
  then have "unat (i + 1) = unat i + unat (1 :: 32 word)"
    by (rule unat_add_lem [THEN iffD1])
  with a show "((i + 1, this, buffer, command_encoder @
        [CopyBufferToBuffer (wb_buffer src) 0 (wb_buffer dst) 0 (unat (buffer_size this))]),
      i, this, buffer, command_encoder)
      \<in> measure (\<lambda>(i, this, buffer, enc). unat (max (dims this) (dims buffer)) - unat i)"
    by simp
qed

declare dynamic_buffer_copy_to_loop.simps [simp del]

definition dynamic_buffer_copy_to ::
  "dynamic_buffer_t \<Rightarrow> dynamic_buffer_t \<Rightarrow> encoder_command list \<Rightarrow> error + encoder_command list" where
  "dynamic_buffer_copy_to this buffer command_encoder =
     dynamic_buffer_copy_to_loop 0 this buffer command_encoder"

text \<open>
  \<^verbatim>\<open>dynamic_buffer_clear\<close>. \<open>empty_buffer\<close> is the zero-filled block of
  \<open>buffer_size\<close> bytes (the allocation is taken to succeed).
\<close>

function dynamic_buffer_clear_loop ::
  "32 word \<Rightarrow> dynamic_buffer_t \<Rightarrow> byte list \<Rightarrow> wgpu_context \<Rightarrow> error + wgpu_context" where
  "dynamic_buffer_clear_loop i this empty_buffer ctx =
     (if i < dims this then
        seq (buffer_at this i) (\<lambda>b.
          dynamic_buffer_clear_loop (i + 1) this empty_buffer
            (wgpu_queue_write_buffer ctx (wb_buffer b) 0 (Some empty_buffer)
               (unat (buffer_size this))))
      else Inr ctx)"
  by pat_completeness auto
termination
proof (relation "measure (\<lambda>(i, this, e, ctx). unat (dims this) - unat i)")
  show "wf (measure (\<lambda>(i, this, e, ctx). unat (dims this) - unat i))"
    by simp
next
  fix i :: "32 word" and this :: dynamic_buffer_t and empty_buffer :: "byte list"
    and ctx :: wgpu_context and b :: wgpu_buffer_t
  assume lt: "i < dims this"
  then have a: "unat i < unat (dims this)"
    by (simp add: word_less_nat_alt)
  have "unat (dims this) < 2 ^ LENGTH(32)"
    by (rule unsigned_less)
  with a have "unat i + 1 < 2 ^ LENGTH(32)"
    by linarith
  then have "unat i + unat (1 :: 32 word) < 2 ^ LENGTH(32)"
    by simp
  then have "unat (i + 1) = unat i + unat (1 :: 32 word)"
    by (rule unat_add_lem [THEN iffD1])
  with a show "((i + 1, this, empty_buffer,
        wgpu_queue_write_buffer ctx (wb_buffer b) 0 (Some empty_buffer) (unat (buffer_size this))),
      i, this, empty_buffer, ctx)
      \<in> measure (\<lambda>(i, this, e, ctx). unat (dims this) - unat i)"
    by simp
qed

declare dynamic_buffer_clear_loop.simps [simp del]

definition dynamic_buffer_clear :: "dynamic_buffer_t \<Rightarrow> wgpu_context \<Rightarrow> error + wgpu_context" where
  "dynamic_buffer_clear this ctx =
     (let empty_buffer = replicate (unat (buffer_size this)) 0
      in dynamic_buffer_clear_loop 0 this empty_buffer ctx)"

section \<open>Floating point\<close>

text \<open>
  A \<^verbatim>\<open>float\<close> or \<^verbatim>\<open>double\<close> is a finite value (a rational number), an infinity or a
  NaN. Every floating-point value of this program comes from unsigned integers through
  division, multiplication, square root and floor, so none is negative: one infinity is
  enough and zero has no sign.
\<close>

datatype cfloat = Finite rat | Infinity | NaN

text \<open>
  The arithmetic is IEEE 754 with rounding to nearest, ties to even: \<^verbatim>\<open>float\<close> is binary32
  (24 significant bits, least normal exponent \<open>-126\<close>), \<^verbatim>\<open>double\<close> is binary64 (53 bits,
  \<open>-1022\<close>), and every operation is rounded once to the format of its C type.
  \<open>pow2 e\<close> is \<open>2\<^sup>e\<close>; \<open>ilog2 x\<close> is the exponent of a positive \<open>x\<close>, the \<open>e\<close> with
  \<open>2\<^sup>e \<le> x < 2\<^sup>e\<^sup>+\<^sup>1\<close>; \<open>rne\<close> rounds to the nearest integer, a tie to the even one;
  \<open>round_to p emin\<close> rounds to \<open>p\<close> significant bits, with the spacing of the
  subnormal numbers below \<open>2\<^bsup>emin\<^esup>\<close>.
\<close>

definition pow2 :: "int \<Rightarrow> rat" where
  "pow2 e = (if 0 \<le> e then 2 ^ nat e else 1 / 2 ^ nat (- e))"

definition ilog2 :: "rat \<Rightarrow> int" where
  "ilog2 x = (case quotient_of x of (a, b) \<Rightarrow>
                let d = bitlen a - bitlen b in if pow2 d \<le> x then d else d - 1)"

definition rne :: "rat \<Rightarrow> int" where
  "rne y = (let f = \<lfloor>y\<rfloor>; r = y - of_int f
            in if r < 1 / 2 then f else if 1 / 2 < r then f + 1
               else if even f then f else f + 1)"

definition round_to :: "nat \<Rightarrow> int \<Rightarrow> rat \<Rightarrow> rat" where
  "round_to p emin x =
     (if x = 0 then 0
      else let e = max (ilog2 \<bar>x\<bar>) emin; ulp = pow2 (e - int p + 1)
           in of_int (rne (x / ulp)) * ulp)"

definition to_float :: "rat \<Rightarrow> cfloat" where
  "to_float x =
     (let y = round_to 24 (- 126) x in if 2 ^ 128 \<le> \<bar>y\<bar> then Infinity else Finite y)"

text \<open>Conversions of unsigned integers to \<^verbatim>\<open>float\<close>.\<close>

definition u32_to_float :: "32 word \<Rightarrow> cfloat" where
  "u32_to_float n = to_float (of_int (uint n))"

definition u64_to_float :: "64 word \<Rightarrow> cfloat" where
  "u64_to_float n = to_float (of_int (uint n))"

text \<open>Division and multiplication of two \<^verbatim>\<open>float\<close> values.\<close>

fun f_div :: "cfloat \<Rightarrow> cfloat \<Rightarrow> cfloat" where
  "f_div NaN _ = NaN"
| "f_div _ NaN = NaN"
| "f_div Infinity Infinity = NaN"
| "f_div Infinity (Finite b) = Infinity"
| "f_div (Finite a) Infinity = Finite 0"
| "f_div (Finite a) (Finite b) =
     (if b = 0 then (if a = 0 then NaN else Infinity) else to_float (a / b))"

fun f_mul :: "cfloat \<Rightarrow> cfloat \<Rightarrow> cfloat" where
  "f_mul NaN _ = NaN"
| "f_mul _ NaN = NaN"
| "f_mul Infinity Infinity = Infinity"
| "f_mul Infinity (Finite b) = (if b = 0 then NaN else Infinity)"
| "f_mul (Finite a) Infinity = (if a = 0 then NaN else Infinity)"
| "f_mul (Finite a) (Finite b) = to_float (a * b)"

declare f_div.simps [simp del] f_mul.simps [simp del]

text \<open>
  \<^verbatim>\<open>sqrt\<close> takes and returns a \<^verbatim>\<open>double\<close> and is correctly rounded. \<open>isqrt n\<close> is the
  integer part of the square root of \<open>n\<close>, found by bisection; \<open>sqrt_round p x\<close> is the
  square root of \<open>x\<close> rounded to \<open>p\<close> significant bits: with \<open>ulp\<close> the spacing at the
  root and \<open>t = x / ulp\<^sup>2\<close>, the root lies between \<open>n * ulp\<close> and \<open>(n + 1) * ulp\<close> for
  \<open>n = isqrt \<lfloor>t\<rfloor>\<close>, and comparing \<open>t\<close> with \<open>(n + 1/2)\<^sup>2\<close> tells the nearer one.
\<close>

function isqrt_between :: "int \<Rightarrow> int \<Rightarrow> int \<Rightarrow> int" where
  "isqrt_between n lo hi =
     (if hi \<le> lo + 1 then lo
      else let mid = (lo + hi) div 2
           in if mid * mid \<le> n then isqrt_between n mid hi else isqrt_between n lo mid)"
  by pat_completeness auto
termination
  by (relation "measure (\<lambda>(n, lo, hi). nat (hi - lo))") auto

declare isqrt_between.simps [simp del]

definition isqrt :: "int \<Rightarrow> int" where
  "isqrt n = isqrt_between n 0 (n + 1)"

definition sqrt_round :: "nat \<Rightarrow> rat \<Rightarrow> rat" where
  "sqrt_round p x =
     (if x = 0 then 0
      else let e = ilog2 x div 2; ulp = pow2 (e - int p + 1); t = x / (ulp * ulp);
               n = isqrt \<lfloor>t\<rfloor>; m = of_int n + 1 / 2
           in if t < m * m then of_int n * ulp
              else if m * m < t then of_int (n + 1) * ulp
              else of_int (if even n then n else n + 1) * ulp)"

definition c_sqrt :: "cfloat \<Rightarrow> cfloat" where
  "c_sqrt x = (case x of Finite a \<Rightarrow> (if a < 0 then NaN else Finite (sqrt_round 53 a))
                | Infinity \<Rightarrow> Infinity | NaN \<Rightarrow> NaN)"

text \<open>
  \<^verbatim>\<open>floor\<close> takes and returns a \<^verbatim>\<open>double\<close>; a \<^verbatim>\<open>float\<close> argument is promoted without
  change. A \<^verbatim>\<open>double\<close> assigned to a \<^verbatim>\<open>float\<close> is rounded. A \<^verbatim>\<open>double\<close> assigned to a
  \<^verbatim>\<open>uint32_t\<close> is truncated towards zero. When the truncated value is not a
  \<^verbatim>\<open>uint32_t\<close>, or the \<^verbatim>\<open>double\<close> is an infinity or a NaN, C leaves the result
  undefined: the program does not stop there, the conversion yields some word. Which word
  is a parameter of the model, the function \<open>undef\<close> from the \<^verbatim>\<open>double\<close> to the word the
  implementation yields for it; the theorems below hold for every \<open>undef\<close>.
\<close>

definition c_floor :: "cfloat \<Rightarrow> cfloat" where
  "c_floor x = (case x of Finite a \<Rightarrow> Finite (of_int \<lfloor>a\<rfloor>) | Infinity \<Rightarrow> Infinity | NaN \<Rightarrow> NaN)"

definition double_to_float :: "cfloat \<Rightarrow> cfloat" where
  "double_to_float x = (case x of Finite a \<Rightarrow> to_float a | Infinity \<Rightarrow> Infinity | NaN \<Rightarrow> NaN)"

definition double_to_u32 :: "(cfloat \<Rightarrow> 32 word) \<Rightarrow> cfloat \<Rightarrow> 32 word" where
  "double_to_u32 undef x =
     (case x of
        Finite a \<Rightarrow>
          if - 1 < a \<and> a < 2 ^ 32 then word_of_int (if 0 \<le> a then \<lfloor>a\<rfloor> else - \<lfloor>- a\<rfloor>)
          else undef x
      | Infinity \<Rightarrow> undef x
      | NaN \<Rightarrow> undef x)"

section \<open>Settings and field registry\<close>

text \<open>
  The static struct \<^verbatim>\<open>settings\<close>: the fields that the sizing and the registry read or
  write. The tuning parameters of the simulation are not touched by the code modelled
  here and are left out.
\<close>

record settings_t =
  grid_size :: "32 word"
  grid_w :: "32 word"
  grid_h :: "32 word"
  dye_size :: "32 word"
  dye_w :: "32 word"
  dye_h :: "32 word"
  rdx :: "32 word"
  dye_rdx :: "32 word"
  dx :: cfloat

definition settings :: settings_t where
  "settings = \<lparr>grid_size = 512, grid_w = 0, grid_h = 0, dye_size = 2048, dye_w = 0, dye_h = 0,
                rdx = 0, dye_rdx = 0, dx = Finite 0\<rparr>"

text \<open>The static struct \<^verbatim>\<open>dynamic_buffers\<close>.\<close>

record dynamic_buffers_t =
  velocity :: dynamic_buffer_t
  velocity0 :: dynamic_buffer_t
  dye :: dynamic_buffer_t
  dye0 :: dynamic_buffer_t
  divergence :: dynamic_buffer_t
  divergence0 :: dynamic_buffer_t
  pressure :: dynamic_buffer_t
  pressure0 :: dynamic_buffer_t
  vorticity :: dynamic_buffer_t
  rgb_buffer :: dynamic_buffer_t

text \<open>
  \<^verbatim>\<open>dynamic_buffers_init\<close>. The nine initialisations run in the order of the source;
  the first that fails ends the run.
\<close>

definition dynamic_buffers_init ::
  "bool \<Rightarrow> wgpu_context \<Rightarrow> settings_t \<Rightarrow> dynamic_buffers_t
     \<Rightarrow> error + dynamic_buffers_t \<times> wgpu_context" where
  "dynamic_buffers_init ndebug ctx s bs =
     seq (dynamic_buffer_init ndebug ctx 2 (grid_w s) (grid_h s)) (\<lambda>(b, ctx).
     let bs = bs\<lparr>velocity := b\<rparr> in
     seq (dynamic_buffer_init ndebug ctx 2 (grid_w s) (grid_h s)) (\<lambda>(b, ctx).
     let bs = bs\<lparr>velocity0 := b\<rparr> in
     seq (dynamic_buffer_init ndebug ctx 3 (dye_w s) (dye_h s)) (\<lambda>(b, ctx).
     let bs = bs\<lparr>dye := b\<rparr> in
     seq (dynamic_buffer_init ndebug ctx 4 (dye_w s) (dye_h s)) (\<lambda>(b, ctx).
     let bs = bs\<lparr>dye0 := b\<rparr> in
     seq (dynamic_buffer_init ndebug ctx 1 (grid_w s) (grid_h s)) (\<lambda>(b, ctx).
     let bs = bs\<lparr>divergence := b\<rparr> in
     seq (dynamic_buffer_init ndebug ctx 1 (grid_w s) (grid_h s)) (\<lambda>(b, ctx).
     let bs = bs\<lparr>divergence0 := b\<rparr> in
     seq (dynamic_buffer_init ndebug ctx 1 (grid_w s) (grid_h s)) (\<lambda>(b, ctx).
     let bs = bs\<lparr>pressure := b\<rparr> in
     seq (dynamic_buffer_init ndebug ctx 1 (grid_w s) (grid_h s)) (\<lambda>(b, ctx).
     let bs = bs\<lparr>pressure0 := b\<rparr> in
     seq (dynamic_buffer_init ndebug ctx 1 (grid_w s) (grid_h s)) (\<lambda>(b, ctx).
     let bs = bs\<lparr>vorticity := b\<rparr> in
     Inr (bs, ctx))))))))))"

section \<open>Uniforms\<close>

datatype uniform_type_t =
    UNIFORM_TIME | UNIFORM_DT | UNIFORM_MOUSE_INFOS | UNIFORM_GRID_SIZE | UNIFORM_SIM_SPEED
  | UNIFORM_VELOCITY_ADD_INTENSITY | UNIFORM_VELOCITY_ADD_RADIUS | UNIFORM_VELOCITY_DIFFUSION
  | UNIFORM_DYE_ADD_INTENSITY | UNIFORM_DYE_ADD_RADIUS | UNIFORM_DYE_ADD_DIFFUSION
  | UNIFORM_VISCOSITY | UNIFORM_VORTICITY | UNIFORM_CONTAIN_FLUID | UNIFORM_MOUSE_TYPE
  | UNIFORM_RENDER_INTENSITY | UNIFORM_RENDER_DYE | UNIFORM_COUNT

text \<open>\<^verbatim>\<open>uniform_t\<close>; \<open>u_size\<close> is the field \<^verbatim>\<open>size\<close>, a \<^verbatim>\<open>size_t\<close> of 64 bits.\<close>

record uniform_t =
  u_type :: uniform_type_t
  u_size :: "64 word"
  always_update :: bool
  needs_update :: bool
  u_buffer :: wgpu_buffer_t

text \<open>
  \<^verbatim>\<open>uniform_init\<close>. The struct is not cleared: when no buffer is created, \<open>u_buffer\<close>
  keeps what it held. \<open>this->size * 4\<close> is computed in \<^verbatim>\<open>size_t\<close>.
\<close>

definition uniform_init ::
  "uniform_t \<Rightarrow> wgpu_context \<Rightarrow> uniform_type_t \<Rightarrow> 32 word \<Rightarrow> host_ptr
     \<Rightarrow> uniform_t \<times> wgpu_context" where
  "uniform_init this ctx ty sz val =
     (let this = this\<lparr>u_type := ty, u_size := ucast sz, needs_update := False,
                      always_update := (sz = 1)\<rparr>
      in if 0 < u_size this \<and> val \<noteq> None then
           (let (b, ctx') = wgpu_create_buffer ctx
                  \<lparr>desc_usage = {Uniform, CopyDst}, desc_size = unat (u_size this * 4),
                   desc_initial_data = val\<rparr>
            in (this\<lparr>u_buffer := b\<rparr>, ctx'))
         else (this, ctx))"

text \<open>\<^verbatim>\<open>uniform_update\<close>. The last argument of the write is \<open>this->size\<close>, as in the source.\<close>

definition uniform_update ::
  "uniform_t \<Rightarrow> wgpu_context \<Rightarrow> host_ptr \<Rightarrow> uniform_t \<times> wgpu_context" where
  "uniform_update this ctx val =
     (if needs_update this \<or> always_update this \<or> val \<noteq> None then
        (this\<lparr>needs_update := False\<rparr>,
         wgpu_queue_write_buffer ctx (wb_buffer (u_buffer this)) 0 val (unat (u_size this)))
      else (this, ctx))"

section \<open>Sizes\<close>

record WGPUExtent3D =
  width :: "32 word"
  height :: "32 word"
  depthOrArrayLayers :: "32 word"

text \<open>
  \<^verbatim>\<open>get_valid_dimensions\<close>. \<open>w * h * 4\<close> is a \<^verbatim>\<open>uint32_t\<close> product; it is widened for
  the comparison with \<open>max_buffer_size\<close> and converted to \<^verbatim>\<open>float\<close> for the division.
  The three assignments to \<open>down_ratio\<close> follow the source.
\<close>

definition get_valid_dimensions ::
  "(cfloat \<Rightarrow> 32 word) \<Rightarrow> 32 word \<Rightarrow> 32 word \<Rightarrow> 64 word \<Rightarrow> 64 word \<Rightarrow> WGPUExtent3D" where
  "get_valid_dimensions undef w h max_buffer_size max_canvas_size =
     (let down_ratio = Finite 1;
          down_ratio =
            (if max_buffer_size \<le> ucast (w * h * 4)
             then double_to_float
                    (c_sqrt (f_div (u64_to_float max_buffer_size) (u32_to_float (w * h * 4))))
             else down_ratio);
          down_ratio =
            (if max_canvas_size < ucast w
             then f_div (u64_to_float max_canvas_size) (u32_to_float w)
             else if max_canvas_size < ucast h
             then f_div (u64_to_float max_canvas_size) (u32_to_float h)
             else down_ratio)
      in \<lparr>width = double_to_u32 undef (c_floor (f_mul (u32_to_float w) down_ratio)),
          height = double_to_u32 undef (c_floor (f_mul (u32_to_float h) down_ratio)),
          depthOrArrayLayers = 0\<rparr>)"

text \<open>\<^verbatim>\<open>get_preferred_dimensions\<close>.\<close>

definition get_preferred_dimensions ::
  "(cfloat \<Rightarrow> 32 word) \<Rightarrow> 32 word \<Rightarrow> wgpu_context \<Rightarrow> 64 word \<Rightarrow> 64 word \<Rightarrow> WGPUExtent3D" where
  "get_preferred_dimensions undef sz ctx max_buffer_size max_canvas_size =
     (let aspect_ratio = f_div (u32_to_float (surface_width ctx)) (u32_to_float (surface_height ctx));
          (w, h) =
            (if surface_height ctx < surface_width ctx
             then (double_to_u32 undef (c_floor (f_mul (u32_to_float sz) aspect_ratio)), sz)
             else (sz, double_to_u32 undef (c_floor (f_div (u32_to_float sz) aspect_ratio))))
      in get_valid_dimensions undef w h max_buffer_size max_canvas_size)"

text \<open>\<^verbatim>\<open>init_sizes\<close>, on the struct \<^verbatim>\<open>settings\<close>.\<close>

definition init_sizes :: "(cfloat \<Rightarrow> 32 word) \<Rightarrow> wgpu_context \<Rightarrow> settings_t \<Rightarrow> settings_t" where
  "init_sizes undef ctx s =
     (let (max_buffer_size, max_canvas_size) =
            (case adapter_limits ctx of None \<Rightarrow> (0, 0) | Some l \<Rightarrow> l);
          grid = get_preferred_dimensions undef (grid_size s) ctx max_buffer_size max_canvas_size;
          s = s\<lparr>grid_w := width grid, grid_h := height grid\<rparr>;
          dye = get_preferred_dimensions undef (dye_size s) ctx max_buffer_size max_canvas_size;
          s = s\<lparr>dye_w := width dye, dye_h := height dye\<rparr>;
          s = s\<lparr>rdx := grid_size s * 4\<rparr>;
          s = s\<lparr>dye_rdx := dye_size s * 4\<rparr>
      in s\<lparr>dx := f_div (Finite 1) (u32_to_float (rdx s))\<rparr>)"

section \<open>Initial state\<close>

text \<open>
  The statics of the program before \<^verbatim>\<open>main\<close>: zero-filled structs. \<open>context0\<close> is a
  context whose device has created no buffer yet, with a 1280 by 720 surface and an
  adapter that reports 128 MiB and 8192.
\<close>

definition context0 :: wgpu_context where
  "context0 = \<lparr>device_buffers = [], queue_calls = [], surface_width = 1280,
                surface_height = 720, adapter_limits = Some (2 ^ 27, 8192)\<rparr>"

definition dynamic_buffers0 :: dynamic_buffers_t where
  "dynamic_buffers0 =
     \<lparr>velocity = dynamic_buffer_init_defaults, velocity0 = dynamic_buffer_init_defaults,
      dye = dynamic_buffer_init_defaults, dye0 = dynamic_buffer_init_defaults,
      divergence = dynamic_buffer_init_defaults, divergence0 = dynamic_buffer_init_defaults,
      pressure = dynamic_buffer_init_defaults, pressure0 = dynamic_buffer_init_defaults,
      vorticity = dynamic_buffer_init_defaults, rgb_buffer = dynamic_buffer_init_defaults\<rparr>"

definition uniform0 :: uniform_t where
  "uniform0 = \<lparr>u_type = UNIFORM_TIME, u_size = 0, always_update = False, needs_update = False,
                u_buffer = null_buffer\<rparr>"


section \<open>Statements of the specification\<close>

text \<open>
  \<^verbatim>\<open>copyTo\<close> in the words of the specification: for \<open>i\<close> from 0 up to the larger channel
  count, one copy from channel \<open>min i (dims - 1)\<close> of the source to channel
  \<open>min i (dims - 1)\<close> of the destination, at offset 0, of the smaller of the two buffer
  sizes.
\<close>

definition copy_to_as_specified ::
  "dynamic_buffer_t \<Rightarrow> dynamic_buffer_t \<Rightarrow> encoder_command list" where
  "copy_to_as_specified this other =
     map (\<lambda>i. CopyBufferToBuffer
                (wb_buffer (buffers this ! min i (unat (dims this) - 1))) 0
                (wb_buffer (buffers other ! min i (unat (dims other) - 1))) 0
                (min (unat (buffer_size this)) (unat (buffer_size other))))
       [0 ..< max (unat (dims this)) (unat (dims other))]"

text \<open>
  Two one-channel buffers of different sizes, as \<^verbatim>\<open>dynamic_buffer_init\<close> makes them on a
  fresh device, 2 by 1 cells (8 bytes) and 1 by 1 cell (4 bytes), and a three-channel
  buffer of 2 by 1 cells.
\<close>

definition wide_buffer :: dynamic_buffer_t where
  "wide_buffer =
     \<lparr>dims = 1, buffer_size = 8, db_w = 2, db_h = 1,
      buffers = [\<lparr>wb_buffer = Some 0, wb_usage = {Storage, CopySrc, CopyDst}, wb_size = 8\<rparr>,
                 null_buffer, null_buffer]\<rparr>"

definition narrow_buffer :: dynamic_buffer_t where
  "narrow_buffer =
     \<lparr>dims = 1, buffer_size = 4, db_w = 1, db_h = 1,
      buffers = [\<lparr>wb_buffer = Some 1, wb_usage = {Storage, CopySrc, CopyDst}, wb_size = 4\<rparr>,
                 null_buffer, null_buffer]\<rparr>"

definition triple_buffer :: dynamic_buffer_t where
  "triple_buffer =
     \<lparr>dims = 3, buffer_size = 8, db_w = 2, db_h = 1,
      buffers = [\<lparr>wb_buffer = Some 2, wb_usage = {Storage, CopySrc, CopyDst}, wb_size = 8\<rparr>,
                 \<lparr>wb_buffer = Some 3, wb_usage = {Storage, CopySrc, CopyDst}, wb_size = 8\<rparr>,
                 \<lparr>wb_buffer = Some 4, wb_usage = {Storage, CopySrc, CopyDst}, wb_size = 8\<rparr>]\<rparr>"

text \<open>
  A dynamic buffer is well formed on a context when it has at most \<open>MAX_DIMENSIONS\<close>
  channels and each channel's handle names a buffer of the device of \<open>buffer_size\<close>
  bytes: the invariant of the data model.
\<close>

definition channel_ok :: "wgpu_context \<Rightarrow> nat \<Rightarrow> wgpu_buffer_t \<Rightarrow> bool" where
  "channel_ok ctx n b =
     (case wb_buffer b of
        None \<Rightarrow> False
      | Some k \<Rightarrow> k < length (device_buffers ctx) \<and> length (gb_data (device_buffers ctx ! k)) = n)"

definition channels :: "dynamic_buffer_t \<Rightarrow> wgpu_buffer_t list" where
  "channels this = take (unat (dims this)) (buffers this)"

definition dynamic_buffer_ok :: "wgpu_context \<Rightarrow> dynamic_buffer_t \<Rightarrow> bool" where
  "dynamic_buffer_ok ctx this =
     (unat (dims this) \<le> MAX_DIMENSIONS \<and> length (buffers this) = MAX_DIMENSIONS
      \<and> list_all (channel_ok ctx (unat (buffer_size this))) (channels this))"

text \<open>The bytes of a channel on a context; a null or unknown handle has none.\<close>

definition channel_data :: "wgpu_context \<Rightarrow> wgpu_buffer_t \<Rightarrow> byte list option" where
  "channel_data ctx b =
     (case wb_buffer b of
        None \<Rightarrow> None
      | Some k \<Rightarrow> if k < length (device_buffers ctx) then Some (gb_data (device_buffers ctx ! k))
                  else None)"

text \<open>One write of the loop of \<^verbatim>\<open>dynamic_buffer_clear\<close>: \<open>n\<close> zero bytes to a channel.\<close>

definition zero_write :: "nat \<Rightarrow> wgpu_context \<Rightarrow> wgpu_buffer_t \<Rightarrow> wgpu_context" where
  "zero_write n ctx b = wgpu_queue_write_buffer ctx (wb_buffer b) 0 (Some (replicate n 0)) n"

text \<open>
  A context whose device holds the buffers of \<open>wide_buffer\<close>, \<open>narrow_buffer\<close> and
  \<open>triple_buffer\<close>, every byte being 7.
\<close>

definition fields_context :: wgpu_context where
  "fields_context = context0
     \<lparr>device_buffers :=
        [\<lparr>gb_usage = {Storage, CopySrc, CopyDst}, gb_data = replicate 8 7\<rparr>,
         \<lparr>gb_usage = {Storage, CopySrc, CopyDst}, gb_data = replicate 4 7\<rparr>,
         \<lparr>gb_usage = {Storage, CopySrc, CopyDst}, gb_data = replicate 8 7\<rparr>,
         \<lparr>gb_usage = {Storage, CopySrc, CopyDst}, gb_data = replicate 8 7\<rparr>,
         \<lparr>gb_usage = {Storage, CopySrc, CopyDst}, gb_data = replicate 8 7\<rparr>]\<rparr>"

text \<open>
  \<^verbatim>\<open>UniformSlot.init\<close> in the words of the specification allocates a uniform-usage GPU
  buffer of a given byte size: the device has one more buffer, the slot holds its handle,
  the usage includes \<open>Uniform\<close> and the buffer has that many bytes.
\<close>

definition allocates_uniform_buffer ::
  "wgpu_context \<Rightarrow> uniform_t \<times> wgpu_context \<Rightarrow> nat \<Rightarrow> bool" where
  "allocates_uniform_buffer ctx r n =
     (case r of (this', ctx') \<Rightarrow>
        length (device_buffers ctx') = Suc (length (device_buffers ctx))
        \<and> wb_buffer (u_buffer this') = Some (length (device_buffers ctx))
        \<and> Uniform \<in> gb_usage (last (device_buffers ctx'))
        \<and> length (gb_data (last (device_buffers ctx'))) = n)"

text \<open>
  Relative closeness, for the analysis of rounding errors: \<open>near k x y\<close> says that the
  positive \<open>x\<close> and \<open>y\<close> differ by at most \<open>k\<close> roundings to 24 bits,
  \<open>x * theta\<^sup>k \<le> y\<close> and \<open>y * theta\<^sup>k \<le> x\<close> for \<open>theta = 1 - 2\<^sup>-\<^sup>2\<^sup>4\<close>.
\<close>

definition theta :: rat where
  "theta = 1 - 1 / 2 ^ 24"

definition near :: "nat \<Rightarrow> rat \<Rightarrow> rat \<Rightarrow> bool" where
  "near k x y = (0 < x \<and> x * theta ^ k \<le> y \<and> y * theta ^ k \<le> x)"

text \<open>
  The sizes in \<^verbatim>\<open>settings\<close> respect a storage-buffer limit of 128 MiB and a texture
  dimension limit of 8192: for the grid and for the dye, width times height times 4 bytes
  is at most \<open>2\<^sup>2\<^sup>7\<close>, and width and height are at most 8192. The products are taken
  in the integers, not in \<^verbatim>\<open>uint32_t\<close>.
\<close>

definition sizes_within_limits :: "settings_t \<Rightarrow> bool" where
  "sizes_within_limits s =
     (uint (grid_w s) * uint (grid_h s) * 4 \<le> 2 ^ 27
      \<and> uint (grid_w s) \<le> 8192 \<and> uint (grid_h s) \<le> 8192
      \<and> uint (dye_w s) * uint (dye_h s) * 4 \<le> 2 ^ 27
      \<and> uint (dye_w s) \<le> 8192 \<and> uint (dye_h s) \<le> 8192)"

section \<open>Basic facts\<close>

lemma seq_Inr [simp]: "seq (Inr x) f = f x"
  by (simp add: seq_def)

lemma seq_Inl [simp]: "seq (Inl e) f = Inl e"
  by (simp add: seq_def)

lemma word_succ_unat: "(k :: 32 word) < n \<Longrightarrow> unat (k + 1) = Suc (unat k)"
proof -
  assume "k < n"
  then have a: "unat k < unat n"
    by (simp add: word_less_nat_alt)
  have "unat n < 2 ^ LENGTH(32)"
    by (rule unsigned_less)
  with a have "unat k + 1 < 2 ^ LENGTH(32)"
    by linarith
  then have "unat k + unat (1 :: 32 word) < 2 ^ LENGTH(32)"
    by simp
  then have "unat (k + 1) = unat k + unat (1 :: 32 word)"
    by (rule unat_add_lem [THEN iffD1])
  then show ?thesis
    by simp
qed

section \<open>Initialisation of the dynamic buffers\<close>

lemma init_loop_succeeds:
  "unat (dims this) \<le> MAX_DIMENSIONS \<Longrightarrow> \<exists>r. dynamic_buffer_init_loop k this ctx = Inr r"
proof (induction k this ctx rule: dynamic_buffer_init_loop.induct)
  case (1 k this ctx)
  show ?case
  proof (cases "k < dims this")
    case False
    then show ?thesis
      by (subst dynamic_buffer_init_loop.simps) simp
  next
    case True
    then have "unat k < unat (dims this)"
      by (simp add: word_less_nat_alt)
    with "1.prems" have lt: "unat k < MAX_DIMENSIONS"
      by simp
    obtain b ctx' where c:
      "wgpuDeviceCreateBuffer ctx {Storage, CopySrc, CopyDst} (unat (buffer_size this)) = (b, ctx')"
      by (cases "wgpuDeviceCreateBuffer ctx {Storage, CopySrc, CopyDst} (unat (buffer_size this))")
    from "1.IH" [OF True refl refl refl c [symmetric] lt] "1.prems"
    obtain r where "dynamic_buffer_init_loop (k + 1)
        (this\<lparr>buffers := (buffers this)
           [unat k := \<lparr>wb_buffer = b, wb_usage = {Storage, CopySrc, CopyDst},
                        wb_size = unat (buffer_size this)\<rparr>]\<rparr>) ctx' = Inr r"
      by auto
    with True lt c show ?thesis
      by (subst dynamic_buffer_init_loop.simps) simp
  qed
qed

lemma init_loop_overruns:
  "MAX_DIMENSIONS < unat (dims this) \<Longrightarrow> unat k \<le> MAX_DIMENSIONS
     \<Longrightarrow> dynamic_buffer_init_loop k this ctx = Inl (IndexOutOfBounds MAX_DIMENSIONS)"
proof (induction k this ctx rule: dynamic_buffer_init_loop.induct)
  case (1 k this ctx)
  from "1.prems" have lt: "k < dims this"
    by (simp add: word_less_nat_alt)
  obtain b ctx' where c:
    "wgpuDeviceCreateBuffer ctx {Storage, CopySrc, CopyDst} (unat (buffer_size this)) = (b, ctx')"
    by (cases "wgpuDeviceCreateBuffer ctx {Storage, CopySrc, CopyDst} (unat (buffer_size this))")
  show ?case
  proof (cases "unat k < MAX_DIMENSIONS")
    case False
    with "1.prems" have "unat k = MAX_DIMENSIONS"
      by simp
    with lt c show ?thesis
      by (subst dynamic_buffer_init_loop.simps) simp
  next
    case True
    have "unat (k + 1) = Suc (unat k)"
      using lt by (rule word_succ_unat)
    with True have "unat (k + 1) \<le> MAX_DIMENSIONS"
      by simp
    with "1.IH" [OF lt refl refl refl c [symmetric] True] "1.prems"
    have "dynamic_buffer_init_loop (k + 1)
        (this\<lparr>buffers := (buffers this)
           [unat k := \<lparr>wb_buffer = b, wb_usage = {Storage, CopySrc, CopyDst},
                        wb_size = unat (buffer_size this)\<rparr>]\<rparr>) ctx'
        = Inl (IndexOutOfBounds MAX_DIMENSIONS)"
      by simp
    with True lt c show ?thesis
      by (subst dynamic_buffer_init_loop.simps) simp
  qed
qed

lemma dynamic_buffer_init_succeeds:
  "unat d \<le> MAX_DIMENSIONS \<Longrightarrow> \<exists>r. dynamic_buffer_init ndebug ctx d w h = Inr r"
  using init_loop_succeeds
    [of "dynamic_buffer_init_defaults\<lparr>dims := d, buffer_size := w * h * 4, db_w := w, db_h := h\<rparr>"
        0 ctx]
  by (simp add: dynamic_buffer_init_def)

lemma dynamic_buffer_init_rejects:
  "MAX_DIMENSIONS < unat d \<Longrightarrow> dynamic_buffer_init ndebug ctx d w h =
     Inl (if ndebug then IndexOutOfBounds MAX_DIMENSIONS else AssertionFailed)"
  using init_loop_overruns
    [of "dynamic_buffer_init_defaults\<lparr>dims := d, buffer_size := w * h * 4, db_w := w, db_h := h\<rparr>"
        0 ctx]
  by (simp add: dynamic_buffer_init_def)

text \<open>
  C1. \<^verbatim>\<open>dynamic_buffers_init\<close> never completes, whatever the context, the settings and
  the registry: the fourth initialisation, of \<^verbatim>\<open>dye0\<close>, asks for 4 channels, more than
  \<open>MAX_DIMENSIONS = 3\<close>. With assertions enabled the \<^verbatim>\<open>assert\<close> in
  \<^verbatim>\<open>dynamic_buffer_init\<close> fails; with assertions disabled the allocation loop stores to
  \<^verbatim>\<open>buffers[3]\<close>, past the end of the array of 3.
\<close>

theorem dynamic_buffers_init_stops_at_dye0:
  "dynamic_buffers_init ndebug ctx s bs =
     Inl (if ndebug then IndexOutOfBounds 3 else AssertionFailed)"
proof -
  obtain b1 c1 where r1: "dynamic_buffer_init ndebug ctx 2 (grid_w s) (grid_h s) = Inr (b1, c1)"
    using dynamic_buffer_init_succeeds [of 2 ndebug ctx "grid_w s" "grid_h s"]
    by (auto simp: MAX_DIMENSIONS_def)
  obtain b2 c2 where r2: "dynamic_buffer_init ndebug c1 2 (grid_w s) (grid_h s) = Inr (b2, c2)"
    using dynamic_buffer_init_succeeds [of 2 ndebug c1 "grid_w s" "grid_h s"]
    by (auto simp: MAX_DIMENSIONS_def)
  obtain b3 c3 where r3: "dynamic_buffer_init ndebug c2 3 (dye_w s) (dye_h s) = Inr (b3, c3)"
    using dynamic_buffer_init_succeeds [of 3 ndebug c2 "dye_w s" "dye_h s"]
    by (auto simp: MAX_DIMENSIONS_def)
  have r4: "dynamic_buffer_init ndebug c3 4 (dye_w s) (dye_h s) =
      Inl (if ndebug then IndexOutOfBounds 3 else AssertionFailed)"
    using dynamic_buffer_init_rejects [of 4 ndebug c3 "dye_w s" "dye_h s"]
    by (simp add: MAX_DIMENSIONS_def)
  show ?thesis
    by (simp add: dynamic_buffers_init_def r1 r2 r3 r4)
qed

theorem dynamic_buffers_init_stops_at_dye0_witness:
  "dynamic_buffers_init False context0 settings dynamic_buffers0 = Inl AssertionFailed
   \<and> dynamic_buffers_init True context0 settings dynamic_buffers0 = Inl (IndexOutOfBounds 3)"
  using dynamic_buffers_init_stops_at_dye0 [of False context0 settings dynamic_buffers0]
    dynamic_buffers_init_stops_at_dye0 [of True context0 settings dynamic_buffers0]
  by simp

section \<open>Copy between dynamic buffers\<close>

lemma copy_loop_closed:
  assumes d1: "1 \<le> unat (dims this)" "unat (dims this) \<le> MAX_DIMENSIONS"
    and d2: "1 \<le> unat (dims other)" "unat (dims other) \<le> MAX_DIMENSIONS"
  shows "dynamic_buffer_copy_to_loop i this other enc =
     Inr (enc @ map (\<lambda>i. CopyBufferToBuffer
                (wb_buffer (buffers this ! min i (unat (dims this) - 1))) 0
                (wb_buffer (buffers other ! min i (unat (dims other) - 1))) 0
                (unat (buffer_size this)))
       [unat i ..< max (unat (dims this)) (unat (dims other))])"
  using assms
proof (induction i this other enc rule: dynamic_buffer_copy_to_loop.induct)
  case (1 i this buffer enc)
  let ?n = "max (unat (dims this)) (unat (dims buffer))"
  have mx: "unat (max (dims this) (dims buffer)) = ?n"
    by (simp add: max_def word_le_nat_alt)
  show ?case
  proof (cases "i < max (dims this) (dims buffer)")
    case False
    then have "\<not> unat i < ?n"
      using mx by (simp add: word_less_nat_alt)
    then have e: "[unat i ..< ?n] = []"
      by (simp only: upt_eq_Nil_conv) linarith
    have "dynamic_buffer_copy_to_loop i this buffer enc = Inr enc"
      using False by (subst dynamic_buffer_copy_to_loop.simps) simp
    then show ?thesis
      by (simp only: e list.map append_Nil2)
  next
    case True
    then have lt: "unat i < ?n"
      using mx by (simp add: word_less_nat_alt)
    have s1: "unat (dims this - 1) = unat (dims this) - 1"
      using "1.prems"(1) by (simp add: unat_sub word_le_nat_alt)
    have s2: "unat (dims buffer - 1) = unat (dims buffer) - 1"
      using "1.prems"(3) by (simp add: unat_sub word_le_nat_alt)
    have m1: "unat (min i (dims this - 1)) = min (unat i) (unat (dims this) - 1)"
      using s1 by (simp add: min_def word_le_nat_alt)
    have m2: "unat (min i (dims buffer - 1)) = min (unat i) (unat (dims buffer) - 1)"
      using s2 by (simp add: min_def word_le_nat_alt)
    have b1: "buffer_at this (min i (dims this - 1))
        = Inr (buffers this ! min (unat i) (unat (dims this) - 1))"
      using "1.prems"(1,2) by (simp add: buffer_at_def m1)
    have b2: "buffer_at buffer (min i (dims buffer - 1))
        = Inr (buffers buffer ! min (unat i) (unat (dims buffer) - 1))"
      using "1.prems"(3,4) by (simp add: buffer_at_def m2)
    have su: "unat (i + 1) = Suc (unat i)"
      using True by (rule word_succ_unat)
    have up: "[unat i ..< ?n] = unat i # [Suc (unat i) ..< ?n]"
      using lt by (simp add: upt_conv_Cons)
    show ?thesis
      using True "1.IH" [OF True] "1.prems"
      by (subst dynamic_buffer_copy_to_loop.simps) (simp add: b1 b2 su up)
  qed
qed

text \<open>
  C2, as the specification states it, fails: the size of every copy is the
  \<open>buffer_size\<close> of the source, not the smaller of the two sizes. Copying the 8-byte
  buffer to the 4-byte buffer records a copy of 8 bytes.
\<close>

theorem copy_to_size_counterexample:
  "dynamic_buffer_copy_to wide_buffer narrow_buffer []
     \<noteq> Inr (copy_to_as_specified wide_buffer narrow_buffer)"
  by code_simp

text \<open>
  C2, amended. For channel counts \<open>d1\<close>, \<open>d2\<close> in \<open>{1, 2, 3}\<close>, \<^verbatim>\<open>copyTo\<close> appends
  exactly \<open>max d1 d2\<close> copy commands to the encoder; the \<open>i\<close>-th copies channel
  \<open>min i (d1 - 1)\<close> of the source to channel \<open>min i (d2 - 1)\<close> of the destination at
  offset 0, and each copy transfers \<open>buffer_size\<close> bytes of the source.
\<close>

theorem dynamic_buffer_copy_to_commands:
  assumes "dims this \<in> {1, 2, 3}" and "dims other \<in> {1, 2, 3}"
  shows "dynamic_buffer_copy_to this other enc =
     Inr (enc @ map (\<lambda>i. CopyBufferToBuffer
                (wb_buffer (buffers this ! min i (unat (dims this) - 1))) 0
                (wb_buffer (buffers other ! min i (unat (dims other) - 1))) 0
                (unat (buffer_size this)))
       [0 ..< max (unat (dims this)) (unat (dims other))])"
proof -
  from assms(1) have a: "1 \<le> unat (dims this)" "unat (dims this) \<le> MAX_DIMENSIONS"
    by (auto simp: MAX_DIMENSIONS_def)
  from assms(2) have b: "1 \<le> unat (dims other)" "unat (dims other) \<le> MAX_DIMENSIONS"
    by (auto simp: MAX_DIMENSIONS_def)
  show ?thesis
    using copy_loop_closed [OF a b, of 0 enc]
    by (simp add: dynamic_buffer_copy_to_def)
qed

theorem dynamic_buffer_copy_to_commands_witness:
  "dims wide_buffer \<in> {1, 2, 3} \<and> dims triple_buffer \<in> {1, 2, 3}
   \<and> dynamic_buffer_copy_to wide_buffer triple_buffer [] =
       Inr [CopyBufferToBuffer (Some 0) 0 (Some 2) 0 8,
            CopyBufferToBuffer (Some 0) 0 (Some 3) 0 8,
            CopyBufferToBuffer (Some 0) 0 (Some 4) 0 8]"
proof -
  have a: "dims wide_buffer \<in> {1, 2, 3}"
    by (simp add: wide_buffer_def)
  have b: "dims triple_buffer \<in> {1, 2, 3}"
    by (simp add: triple_buffer_def)
  have u: "[0 ..< 3] = [0, 1, 2]"
    by (simp add: upt_rec)
  show ?thesis
    using a b dynamic_buffer_copy_to_commands [OF a b, of "[]"]
    by (simp add: wide_buffer_def triple_buffer_def u)
qed

section \<open>Uniform slots\<close>

lemma unat_ucast_32_64: "unat (ucast (sz :: 32 word) :: 64 word) = unat sz"
proof -
  have "uint (ucast sz :: 64 word) = uint sz"
    by (rule uint_up_ucast) (simp add: is_up)
  then have "nat (uint (ucast sz :: 64 word)) = nat (uint sz)"
    by simp
  then show ?thesis
    by simp
qed

lemma unat_size_times_4: "unat ((ucast (sz :: 32 word) :: 64 word) * 4) = unat sz * 4"
proof -
  have "unat sz < 2 ^ 32"
    using unsigned_less [of sz] by simp
  then have "unat (ucast sz :: 64 word) * unat (4 :: 64 word) < 2 ^ LENGTH(64)"
    by (simp add: unat_ucast_32_64)
  then have "unat ((ucast sz :: 64 word) * 4) = unat (ucast sz :: 64 word) * unat (4 :: 64 word)"
    by (rule unat_mult_lem [THEN iffD1])
  then show ?thesis
    by (simp add: unat_ucast_32_64)
qed

lemma ucast_pos: "(0 < (ucast (sz :: 32 word) :: 64 word)) = (sz \<noteq> 0)"
  by (simp add: word_less_nat_alt unat_ucast_32_64 unat_gt_0)

text \<open>
  C6, as the specification states it, fails: with a null initial value \<^verbatim>\<open>uniform_init\<close>
  allocates nothing. The guard is \<^verbatim>\<open>this->size > 0 && value != NULL\<close>. Here a slot of
  4 elements is initialised with a null value on a fresh context; no buffer of 16 bytes
  appears.
\<close>

theorem uniform_init_null_counterexample:
  "\<not> allocates_uniform_buffer context0
        (uniform_init uniform0 context0 UNIFORM_MOUSE_INFOS 4 None) 16"
  by code_simp

text \<open>
  C6, amended. For every element count of at least 1: when the initial value is not null,
  \<^verbatim>\<open>uniform_init\<close> allocates one buffer of usage uniform and copy-destination, of exactly
  element count times 4 bytes, holding the initial value, and stores its handle in the
  slot; when the initial value is null it allocates nothing, uploads nothing and leaves
  the buffer field of the slot as it was. In both cases the element count is recorded, the
  dirty flag is cleared and \<open>always_update\<close> is set exactly for element count 1.
\<close>

theorem uniform_init_allocates:
  assumes "sz \<noteq> 0"
  shows "uniform_init this ctx ty sz val =
    (case val of
       None \<Rightarrow>
         (this\<lparr>u_type := ty, u_size := ucast sz, needs_update := False, always_update := (sz = 1)\<rparr>,
          ctx)
     | Some bytes \<Rightarrow>
         (this\<lparr>u_type := ty, u_size := ucast sz, needs_update := False, always_update := (sz = 1),
               u_buffer := \<lparr>wb_buffer = Some (length (device_buffers ctx)),
                            wb_usage = {Uniform, CopyDst}, wb_size = unat sz * 4\<rparr>\<rparr>,
          ctx\<lparr>device_buffers := device_buffers ctx @
                [\<lparr>gb_usage = {Uniform, CopyDst},
                  gb_data = take (unat sz * 4) bytes @ replicate (unat sz * 4 - length bytes) 0\<rparr>]\<rparr>))"
  using assms
  by (cases val)
    (simp_all add: uniform_init_def wgpu_create_buffer_def ucast_pos unat_size_times_4 Let_def)

theorem uniform_init_allocates_witness:
  "(4 :: 32 word) \<noteq> 0
   \<and> allocates_uniform_buffer context0
        (uniform_init uniform0 context0 UNIFORM_MOUSE_INFOS 4 (Some (replicate 16 1))) 16
   \<and> snd (uniform_init uniform0 context0 UNIFORM_MOUSE_INFOS 4 None) = context0"
  using uniform_init_allocates [of 4 uniform0 context0 UNIFORM_MOUSE_INFOS "Some (replicate 16 1)"]
    uniform_init_allocates [of 4 uniform0 context0 UNIFORM_MOUSE_INFOS None]
  by (simp add: allocates_uniform_buffer_def context0_def)

text \<open>
  C7. A slot initialised with element count 1 has \<open>always_update\<close> set, so every call of
  \<^verbatim>\<open>uniform_update\<close> on it passes one write to the queue, whatever the dirty flag and
  whether or not the new value is null, and leaves the dirty flag cleared. The write is
  for the slot's buffer at offset 0; its size argument is the element count, 1.
\<close>

theorem uniform_update_scalar_always_writes:
  assumes "uniform_init this0 ctx0 ty 1 val0 = (this, ctx1)"
  shows "uniform_update (this\<lparr>needs_update := dirty\<rparr>) ctx val =
           (this\<lparr>needs_update := False\<rparr>,
            wgpu_queue_write_buffer ctx (wb_buffer (u_buffer this)) 0 val 1)
         \<and> queue_calls (wgpu_queue_write_buffer ctx (wb_buffer (u_buffer this)) 0 val 1) =
           queue_calls ctx @ [QueueWriteBuffer (wb_buffer (u_buffer this)) 0 val 1]"
proof -
  from assms have "always_update this" and "u_size this = 1"
    by (auto simp: uniform_init_def Let_def split: if_splits prod.splits)
  then show ?thesis
    by (simp add: uniform_update_def wgpu_queue_write_buffer_def Let_def)
qed

theorem uniform_update_scalar_always_writes_witness:
  "queue_calls (snd (uniform_update
      ((fst (uniform_init uniform0 context0 UNIFORM_TIME 1 (Some [0, 0, 128, 63])))
         \<lparr>needs_update := False\<rparr>)
      (snd (uniform_init uniform0 context0 UNIFORM_TIME 1 (Some [0, 0, 128, 63]))) None))
   = [QueueWriteBuffer (Some 0) 0 None 1]"
  using uniform_update_scalar_always_writes
    [of uniform0 context0 UNIFORM_TIME "Some [0, 0, 128, 63]"
        "fst (uniform_init uniform0 context0 UNIFORM_TIME 1 (Some [0, 0, 128, 63]))"
        "snd (uniform_init uniform0 context0 UNIFORM_TIME 1 (Some [0, 0, 128, 63]))"
        False
        "snd (uniform_init uniform0 context0 UNIFORM_TIME 1 (Some [0, 0, 128, 63]))" None]
  by (simp add: uniform_init_def wgpu_create_buffer_def context0_def uniform0_def Let_def)

text \<open>
  C8. A slot initialised with an element count greater than 1 does not have
  \<open>always_update\<close>; a call of \<^verbatim>\<open>uniform_update\<close> with the dirty flag false and a null value
  returns the slot and the whole context as they were: no write is queued, no byte of any
  buffer changes and the dirty flag stays false.
\<close>

theorem uniform_update_clean_vector_is_noop:
  assumes "uniform_init this0 ctx0 ty sz val0 = (this, ctx1)" and "1 < sz"
  shows "uniform_update (this\<lparr>needs_update := False\<rparr>) ctx None
           = (this\<lparr>needs_update := False\<rparr>, ctx)"
proof -
  from assms have "\<not> always_update this"
    by (auto simp: uniform_init_def Let_def split: if_splits prod.splits)
  then show ?thesis
    by (simp add: uniform_update_def)
qed

theorem uniform_update_clean_vector_is_noop_witness:
  "(1 :: 32 word) < 4
   \<and> uniform_update
        ((fst (uniform_init uniform0 context0 UNIFORM_MOUSE_INFOS 4 (Some (replicate 16 1))))
           \<lparr>needs_update := False\<rparr>)
        (snd (uniform_init uniform0 context0 UNIFORM_MOUSE_INFOS 4 (Some (replicate 16 1)))) None
      = ((fst (uniform_init uniform0 context0 UNIFORM_MOUSE_INFOS 4 (Some (replicate 16 1))))
           \<lparr>needs_update := False\<rparr>,
         snd (uniform_init uniform0 context0 UNIFORM_MOUSE_INFOS 4 (Some (replicate 16 1))))"
proof -
  have lt: "(1 :: 32 word) < 4"
    by simp
  show ?thesis
    using lt uniform_update_clean_vector_is_noop
      [OF prod.collapse [symmetric] lt,
       of uniform0 context0 UNIFORM_MOUSE_INFOS "Some (replicate 16 1)"
          "snd (uniform_init uniform0 context0 UNIFORM_MOUSE_INFOS 4 (Some (replicate 16 1)))"]
    by simp
qed

text \<open>
  C3 does not hold of the code: \<^verbatim>\<open>uniform_update\<close> passes \<^verbatim>\<open>this->size\<close>, the element count,
  as the byte size of the write, where \<^verbatim>\<open>uniform_init\<close> allocated element count times 4
  bytes. A slot of 2 elements (8 bytes, all \<open>0x11\<close>) updated with 8 bytes of \<open>0x22\<close>:
  the write is of 2 bytes, and the buffer then holds 2 new bytes followed by 6 old ones.
\<close>

theorem uniform_update_writes_element_count_bytes:
  "(case uniform_init uniform0 context0 UNIFORM_MOUSE_INFOS 2 (Some (replicate 8 17)) of
      (u, c) \<Rightarrow>
        (case uniform_update u c (Some (replicate 8 34)) of
           (u', c') \<Rightarrow>
             queue_calls c' = [QueueWriteBuffer (Some 0) 0 (Some (replicate 8 34)) 2]
             \<and> map gb_data (device_buffers c') = [replicate 2 34 @ replicate 6 17]))"
  by code_simp

section \<open>Clearing a dynamic buffer\<close>

lemma clear_loop_closed:
  assumes "unat (dims this) \<le> length (buffers this)" and "length (buffers this) = MAX_DIMENSIONS"
  shows "dynamic_buffer_clear_loop i this (replicate (unat (buffer_size this)) 0) ctx =
     Inr (foldl (zero_write (unat (buffer_size this))) ctx (drop (unat i) (channels this)))"
  using assms
proof (induction i this "replicate (unat (buffer_size this)) (0 :: byte)" ctx
    rule: dynamic_buffer_clear_loop.induct)
  case (1 i this ctx)
  show ?case
  proof (cases "i < dims this")
    case False
    then have "unat (dims this) \<le> unat i"
      by (simp add: word_less_nat_alt)
    then have "drop (unat i) (channels this) = []"
      by (simp add: channels_def)
    with False show ?thesis
      by (subst dynamic_buffer_clear_loop.simps) simp
  next
    case True
    then have lt: "unat i < unat (dims this)"
      by (simp add: word_less_nat_alt)
    with "1.prems" have lt3: "unat i < MAX_DIMENSIONS"
      by simp
    have su: "unat (i + 1) = Suc (unat i)"
      using True by (rule word_succ_unat)
    have "unat i < length (channels this)"
      using lt "1.prems" by (simp add: channels_def)
    then have dr: "drop (unat i) (channels this) = (channels this ! unat i) # drop (Suc (unat i)) (channels this)"
      by (simp add: Cons_nth_drop_Suc)
    have nth: "channels this ! unat i = buffers this ! unat i"
      using lt by (simp add: channels_def)
    have b: "buffer_at this i = Inr (buffers this ! unat i)"
      using lt3 by (simp add: buffer_at_def)
    show ?thesis
      using True "1.hyps" [OF True] "1.prems"
      by (subst dynamic_buffer_clear_loop.simps) (simp add: b dr nth su zero_write_def)
  qed
qed

lemma zero_write_calls:
  "queue_calls (zero_write n ctx b) =
     queue_calls ctx @ [QueueWriteBuffer (wb_buffer b) 0 (Some (replicate n 0)) n]"
  by (simp add: zero_write_def wgpu_queue_write_buffer_def Let_def)

lemma zero_write_channel_ok:
  "channel_ok (zero_write n ctx b) m = channel_ok ctx m"
  by (rule ext)
    (auto simp: zero_write_def wgpu_queue_write_buffer_def Let_def channel_ok_def write_bytes_def
      nth_list_update split: option.splits)

lemma zero_write_zeroes:
  "channel_ok ctx n b \<Longrightarrow> channel_data (zero_write n ctx b) b = Some (replicate n 0)"
  by (auto simp: zero_write_def wgpu_queue_write_buffer_def Let_def channel_ok_def channel_data_def
      write_bytes_def split: option.splits)

lemma zero_write_keeps_zero:
  "channel_data ctx b' = Some (replicate n 0) \<Longrightarrow> channel_data (zero_write n ctx b) b' = Some (replicate n 0)"
  by (auto simp: zero_write_def wgpu_queue_write_buffer_def Let_def channel_data_def
      write_bytes_def nth_list_update split: option.splits if_splits)

lemma fold_zero_write_calls:
  "queue_calls (foldl (zero_write n) ctx bs) =
     queue_calls ctx @ map (\<lambda>b. QueueWriteBuffer (wb_buffer b) 0 (Some (replicate n 0)) n) bs"
  by (induction bs arbitrary: ctx) (simp_all add: zero_write_calls)

lemma fold_zero_write_keeps_zero:
  "channel_data ctx b' = Some (replicate n 0)
     \<Longrightarrow> channel_data (foldl (zero_write n) ctx bs) b' = Some (replicate n 0)"
  by (induction bs arbitrary: ctx) (simp_all add: zero_write_keeps_zero)

lemma fold_zero_write_zeroes:
  "list_all (channel_ok ctx n) bs
     \<Longrightarrow> list_all (\<lambda>b. channel_data (foldl (zero_write n) ctx bs) b = Some (replicate n 0)) bs"
proof (induction bs arbitrary: ctx)
  case Nil
  show ?case by simp
next
  case (Cons b bs)
  from Cons.prems have ok: "channel_ok ctx n b" and rest: "list_all (channel_ok ctx n) bs"
    by simp_all
  from rest have "list_all (channel_ok (zero_write n ctx b) n) bs"
    by (simp add: zero_write_channel_ok)
  then have tl: "list_all (\<lambda>b'. channel_data (foldl (zero_write n) (zero_write n ctx b) bs) b'
      = Some (replicate n 0)) bs"
    by (rule Cons.IH)
  have hd: "channel_data (foldl (zero_write n) (zero_write n ctx b) bs) b = Some (replicate n 0)"
    using ok by (intro fold_zero_write_keeps_zero zero_write_zeroes)
  from hd tl show ?case
    by simp
qed

lemma create_buffer_keeps_channel:
  "channel_ok ctx n b \<Longrightarrow> channel_ok (snd (wgpuDeviceCreateBuffer ctx usage m)) n b"
  by (auto simp: channel_ok_def wgpuDeviceCreateBuffer_def nth_append split: option.splits)

lemma create_buffer_new_channel:
  "channel_ok (snd (wgpuDeviceCreateBuffer ctx usage n)) n
     \<lparr>wb_buffer = fst (wgpuDeviceCreateBuffer ctx usage n), wb_usage = usage', wb_size = m\<rparr>"
  by (simp add: channel_ok_def wgpuDeviceCreateBuffer_def)

lemma init_loop_ok:
  assumes "unat (dims this) \<le> MAX_DIMENSIONS" and "length (buffers this) = MAX_DIMENSIONS"
    and "\<forall>j < unat k. channel_ok ctx (unat (buffer_size this)) (buffers this ! j)"
    and "dynamic_buffer_init_loop k this ctx = Inr (this', ctx')"
  shows "dims this' = dims this \<and> buffer_size this' = buffer_size this
     \<and> length (buffers this') = MAX_DIMENSIONS
     \<and> (\<forall>j < unat (dims this). channel_ok ctx' (unat (buffer_size this)) (buffers this' ! j))"
  using assms
proof (induction k this ctx rule: dynamic_buffer_init_loop.induct)
  case (1 k this ctx)
  let ?n = "unat (buffer_size this)"
  show ?case
  proof (cases "k < dims this")
    case False
    then have le: "unat (dims this) \<le> unat k"
      by (simp add: word_less_nat_alt)
    from False "1.prems"(4) have "this' = this" "ctx' = ctx"
      by (subst (asm) dynamic_buffer_init_loop.simps, simp)+
    with le "1.prems"(2,3) show ?thesis
      by simp
  next
    case True
    then have lt: "unat k < unat (dims this)"
      by (simp add: word_less_nat_alt)
    with "1.prems"(1) have lt3: "unat k < MAX_DIMENSIONS"
      by simp
    have su: "unat (k + 1) = Suc (unat k)"
      using True by (rule word_succ_unat)
    obtain b ctx1 where c:
      "wgpuDeviceCreateBuffer ctx {Storage, CopySrc, CopyDst} ?n = (b, ctx1)"
      by (cases "wgpuDeviceCreateBuffer ctx {Storage, CopySrc, CopyDst} ?n")
    let ?new = "\<lparr>wb_buffer = b, wb_usage = {Storage, CopySrc, CopyDst}, wb_size = ?n\<rparr>"
    let ?step = "this\<lparr>buffers := (buffers this)[unat k := ?new]\<rparr>"
    from True lt3 c "1.prems"(4) have run: "dynamic_buffer_init_loop (k + 1) ?step ctx1 = Inr (this', ctx')"
      by (subst (asm) dynamic_buffer_init_loop.simps) simp
    have inv: "\<forall>j < unat (k + 1). channel_ok ctx1 (unat (buffer_size ?step)) (buffers ?step ! j)"
    proof (intro allI impI)
      fix j
      assume "j < unat (k + 1)"
      then have j: "j < unat k \<or> j = unat k"
        using su by auto
      show "channel_ok ctx1 (unat (buffer_size ?step)) (buffers ?step ! j)"
      proof (cases "j = unat k")
        case True
        then show ?thesis
          using create_buffer_new_channel [of ctx "{Storage, CopySrc, CopyDst}" ?n "{Storage, CopySrc, CopyDst}" ?n]
            c lt3 "1.prems"(2)
          by simp
      next
        case False
        with j have "j < unat k"
          by simp
        with "1.prems"(3) have "channel_ok ctx ?n (buffers this ! j)"
          by simp
        then have "channel_ok ctx1 ?n (buffers this ! j)"
          using create_buffer_keeps_channel [of ctx ?n "buffers this ! j" "{Storage, CopySrc, CopyDst}" ?n] c
          by simp
        with False show ?thesis
          by simp
      qed
    qed
    from "1.IH" [OF True refl refl refl c [symmetric] lt3 _ _ inv run] "1.prems"(1,2)
    show ?thesis
      by simp
  qed
qed

lemma dynamic_buffer_init_ok:
  assumes "unat d \<le> MAX_DIMENSIONS" and "dynamic_buffer_init ndebug ctx d w h = Inr (this, ctx')"
  shows "dynamic_buffer_ok ctx' this \<and> dims this = d \<and> buffer_size this = w * h * 4"
proof -
  let ?init = "dynamic_buffer_init_defaults\<lparr>dims := d, buffer_size := w * h * 4, db_w := w, db_h := h\<rparr>"
  from assms have run: "dynamic_buffer_init_loop 0 ?init ctx = Inr (this, ctx')"
    by (simp add: dynamic_buffer_init_def split: if_splits)
  have "dims this = dims ?init \<and> buffer_size this = buffer_size ?init
     \<and> length (buffers this) = MAX_DIMENSIONS
     \<and> (\<forall>j < unat (dims ?init). channel_ok ctx' (unat (buffer_size ?init)) (buffers this ! j))"
    using assms(1) by (intro init_loop_ok [OF _ _ _ run]) (simp_all add: dynamic_buffer_init_defaults_def)
  then show ?thesis
    using assms(1)
    by (simp add: dynamic_buffer_ok_def channels_def list_all_length)
qed

text \<open>
  C9. On a well-formed dynamic buffer \<^verbatim>\<open>dynamic_buffer_clear\<close> returns, and afterwards the
  bytes of every channel buffer are \<open>buffer_size\<close> zeros. It does so by one queue write
  per channel, each of a zero-filled block of \<open>buffer_size\<close> bytes at offset 0.
  (\<open>dynamic_buffer_init_ok\<close>: every dynamic buffer that \<^verbatim>\<open>dynamic_buffer_init\<close> returns is
  well formed.)
\<close>

theorem dynamic_buffer_clear_zeroes:
  assumes "dynamic_buffer_ok ctx this"
  shows "\<exists>ctx'. dynamic_buffer_clear this ctx = Inr ctx'
     \<and> list_all (\<lambda>b. channel_data ctx' b = Some (replicate (unat (buffer_size this)) 0))
         (channels this)
     \<and> queue_calls ctx' = queue_calls ctx @
         map (\<lambda>b. QueueWriteBuffer (wb_buffer b) 0
                    (Some (replicate (unat (buffer_size this)) 0)) (unat (buffer_size this)))
           (channels this)"
proof -
  let ?n = "unat (buffer_size this)"
  from assms have len: "unat (dims this) \<le> length (buffers this)" "length (buffers this) = MAX_DIMENSIONS"
    and ok: "list_all (channel_ok ctx ?n) (channels this)"
    by (simp_all add: dynamic_buffer_ok_def)
  have "dynamic_buffer_clear this ctx = Inr (foldl (zero_write ?n) ctx (channels this))"
    using clear_loop_closed [OF len, of 0 ctx] by (simp add: dynamic_buffer_clear_def)
  with fold_zero_write_zeroes [OF ok] fold_zero_write_calls [of ?n ctx "channels this"]
  show ?thesis
    by simp
qed

theorem dynamic_buffer_clear_zeroes_witness:
  "dynamic_buffer_ok fields_context triple_buffer
   \<and> (\<exists>ctx'. dynamic_buffer_clear triple_buffer fields_context = Inr ctx'
     \<and> list_all (\<lambda>b. channel_data ctx' b = Some (replicate (unat (buffer_size triple_buffer)) 0))
         (channels triple_buffer)
     \<and> queue_calls ctx' = queue_calls fields_context @
         map (\<lambda>b. QueueWriteBuffer (wb_buffer b) 0
                    (Some (replicate (unat (buffer_size triple_buffer)) 0))
                    (unat (buffer_size triple_buffer)))
           (channels triple_buffer))"
proof -
  have ok: "dynamic_buffer_ok fields_context triple_buffer"
    by code_simp
  from ok dynamic_buffer_clear_zeroes [OF ok] show ?thesis
    by (rule conjI)
qed

section \<open>Rounding\<close>

text \<open>
  The rounding functions on some known values: 0.1 as a \<^verbatim>\<open>float\<close>, ties to even, a
  subnormal, overflow at the top of the range, and the square root of 2 as a
  \<^verbatim>\<open>double\<close>. \<open>isqrt\<close> is the integer square root.
\<close>

lemma isqrt_between_correct:
  assumes "0 \<le> lo" and "lo * lo \<le> n" and "n < hi * hi" and "lo < hi"
  shows "isqrt_between n lo hi * isqrt_between n lo hi \<le> n
     \<and> n < (isqrt_between n lo hi + 1) * (isqrt_between n lo hi + 1)"
  using assms
proof (induction n lo hi rule: isqrt_between.induct)
  case (1 n lo hi)
  show ?case
  proof (cases "hi \<le> lo + 1")
    case True
    with "1.prems" have "hi = lo + 1"
      by simp
    with True "1.prems" show ?thesis
      by (subst (1 2 3 4) isqrt_between.simps) simp
  next
    case False
    let ?mid = "(lo + hi) div 2"
    from False have m: "lo < ?mid" "?mid < hi"
      by simp_all
    show ?thesis
    proof (cases "?mid * ?mid \<le> n")
      case True
      from "1.IH"(1) [OF False refl True _ True "1.prems"(3) m(2)] m(1) "1.prems"(1)
      have "isqrt_between n ?mid hi * isqrt_between n ?mid hi \<le> n
         \<and> n < (isqrt_between n ?mid hi + 1) * (isqrt_between n ?mid hi + 1)"
        by simp
      with False True show ?thesis
        by (subst (1 2 3 4) isqrt_between.simps) (simp add: Let_def)
    next
      case F: False
      then have "n < ?mid * ?mid"
        by simp
      from "1.IH"(2) [OF False refl F "1.prems"(1,2) this m(1)]
      have "isqrt_between n lo ?mid * isqrt_between n lo ?mid \<le> n
         \<and> n < (isqrt_between n lo ?mid + 1) * (isqrt_between n lo ?mid + 1)" .
      with False F show ?thesis
        by (subst (1 2 3 4) isqrt_between.simps) (simp add: Let_def)
    qed
  qed
qed

lemma isqrt_correct:
  assumes "0 \<le> n"
  shows "isqrt n * isqrt n \<le> n \<and> n < (isqrt n + 1) * (isqrt n + 1)"
proof -
  have "(n + 1) * (n + 1) = n * n + 2 * n + 1"
    by (simp add: algebra_simps)
  moreover have "0 \<le> n * n"
    by simp
  ultimately have "n < (n + 1) * (n + 1)"
    using assms by linarith
  with assms show ?thesis
    unfolding isqrt_def by (intro isqrt_between_correct) simp_all
qed

lemma to_float_tenth: "to_float (1 / 10) = Finite (13421773 / 2 ^ 27)"
  by code_simp

lemma to_float_tie_even: "to_float 16777217 = Finite 16777216" "to_float 16777219 = Finite 16777220"
  by code_simp+

lemma to_float_subnormal: "to_float (3 / 2 ^ 150) = Finite (1 / 2 ^ 148)"
  by code_simp

lemma to_float_overflow: "to_float (2 ^ 128 - 2 ^ 103) = Infinity"
  "to_float (2 ^ 128 - 2 ^ 103 - 1) = Finite (2 ^ 128 - 2 ^ 104)"
  by code_simp+

lemma sqrt_round_two: "sqrt_round 53 2 = 6369051672525773 / 2 ^ 52"
  by code_simp

lemma c_sqrt_quarter: "double_to_float (c_sqrt (Finite (1 / 4))) = Finite (1 / 2)"
  by code_simp

text \<open>
  The error of one rounding: for \<open>x\<close> in the normal range, \<open>round_to p\<close> is within
  \<open>x / 2\<^sup>p\<close> of \<open>x\<close>.
\<close>

lemma pow2_powi: "pow2 e = 2 powi e"
  by (simp add: pow2_def power_int_def inverse_eq_divide power_one_over)

lemma pow2_pos: "0 < pow2 e"
  by (simp add: pow2_powi)

lemma pow2_diff: "pow2 (a - b) = pow2 a / pow2 b"
  by (simp add: pow2_powi power_int_diff)

lemma pow2_nat: "pow2 (int n) = 2 ^ n"
  by (simp add: pow2_powi)

lemma ilog2_lower:
  assumes "0 < x"
  shows "pow2 (ilog2 x) \<le> x"
proof -
  obtain a b where q: "quotient_of x = (a, b)"
    by (cases "quotient_of x")
  then have b: "0 < b"
    by (rule quotient_of_denom_pos)
  from q have x: "x = of_int a / of_int b"
    by (rule quotient_of_div)
  with assms b have a: "0 < a"
    by (simp add: zero_less_divide_iff)
  let ?d = "bitlen a - bitlen b"
  show ?thesis
  proof (cases "pow2 ?d \<le> x")
    case True
    then show ?thesis
      by (simp add: ilog2_def q)
  next
    case False
    have la: "2 ^ nat (bitlen a - 1) \<le> a"
      using bitlen_bounds [OF a] by simp
    have lb: "b < 2 ^ nat (bitlen b)"
      using bitlen_bounds [OF b] by simp
    have a1: "1 \<le> bitlen a"
      using a by (simp add: bitlen_alt_def)
    have b0: "0 \<le> bitlen b"
      by (rule bitlen_nonneg)
    have "pow2 (?d - 1) = pow2 (bitlen a - 1) / pow2 (bitlen b)"
      using pow2_diff [of "bitlen a - 1" "bitlen b"] by (simp add: algebra_simps)
    also have "pow2 (bitlen a - 1) = 2 ^ nat (bitlen a - 1)"
      using a1 by (simp add: pow2_def)
    also have "pow2 (bitlen b) = 2 ^ nat (bitlen b)"
      using b0 by (simp add: pow2_def)
    finally have e: "pow2 (?d - 1) = 2 ^ nat (bitlen a - 1) / 2 ^ nat (bitlen b)" .
    have "(of_int (2 ^ nat (bitlen a - 1)) :: rat) \<le> of_int a"
      using la by (simp only: of_int_le_iff)
    then have n1: "(2 :: rat) ^ nat (bitlen a - 1) \<le> of_int a"
      by (simp only: of_int_power of_int_numeral)
    have "b \<le> 2 ^ nat (bitlen b)"
      using lb by simp
    then have "(of_int b :: rat) \<le> of_int (2 ^ nat (bitlen b))"
      by (simp only: of_int_le_iff)
    then have n2: "(of_int b :: rat) \<le> 2 ^ nat (bitlen b)"
      by (simp only: of_int_power of_int_numeral)
    have "(2 :: rat) ^ nat (bitlen a - 1) / 2 ^ nat (bitlen b) \<le> of_int a / of_int b"
      using n1 n2 a b by (intro frac_le) simp_all
    with e x have "pow2 (?d - 1) \<le> x"
      by simp
    with False show ?thesis
      by (simp add: ilog2_def q)
  qed
qed

lemma ilog2_upper:
  assumes "0 < x"
  shows "x < pow2 (ilog2 x + 1)"
proof -
  obtain a b where q: "quotient_of x = (a, b)"
    by (cases "quotient_of x")
  then have b: "0 < b"
    by (rule quotient_of_denom_pos)
  from q have x: "x = of_int a / of_int b"
    by (rule quotient_of_div)
  with assms b have a: "0 < a"
    by (simp add: zero_less_divide_iff)
  let ?d = "bitlen a - bitlen b"
  show ?thesis
  proof (cases "pow2 ?d \<le> x")
    case False
    then show ?thesis
      by (simp add: ilog2_def q)
  next
    case True
    have la: "a < 2 ^ nat (bitlen a)"
      using bitlen_bounds [OF a] by simp
    have lb: "2 ^ nat (bitlen b - 1) \<le> b"
      using bitlen_bounds [OF b] by simp
    have a0: "0 \<le> bitlen a"
      by (rule bitlen_nonneg)
    have b1: "1 \<le> bitlen b"
      using b by (simp add: bitlen_alt_def)
    have "pow2 (?d + 1) = pow2 (bitlen a) / pow2 (bitlen b - 1)"
      using pow2_diff [of "bitlen a" "bitlen b - 1"] by (simp add: algebra_simps)
    also have "pow2 (bitlen a) = 2 ^ nat (bitlen a)"
      using a0 by (simp add: pow2_def)
    also have "pow2 (bitlen b - 1) = 2 ^ nat (bitlen b - 1)"
      using b1 by (simp add: pow2_def)
    finally have e: "pow2 (?d + 1) = 2 ^ nat (bitlen a) / 2 ^ nat (bitlen b - 1)" .
    have "(of_int a :: rat) < of_int (2 ^ nat (bitlen a))"
      using la by (simp only: of_int_less_iff)
    then have n1: "(of_int a :: rat) < 2 ^ nat (bitlen a)"
      by (simp only: of_int_power of_int_numeral)
    have "(of_int (2 ^ nat (bitlen b - 1)) :: rat) \<le> of_int b"
      using lb by (simp only: of_int_le_iff)
    then have n2: "(2 :: rat) ^ nat (bitlen b - 1) \<le> of_int b"
      by (simp only: of_int_power of_int_numeral)
    have "(of_int a :: rat) / of_int b < 2 ^ nat (bitlen a) / 2 ^ nat (bitlen b - 1)"
      using n1 n2 a b by (intro frac_less) simp_all
    with e x have "x < pow2 (?d + 1)"
      by simp
    with True show ?thesis
      by (simp add: ilog2_def q)
  qed
qed

lemma rne_error: "\<bar>of_int (rne y) - y\<bar> \<le> 1 / 2"
proof -
  have "of_int \<lfloor>y\<rfloor> \<le> y" and "y < of_int \<lfloor>y\<rfloor> + 1"
    by linarith+
  then show ?thesis
    by (auto simp: rne_def Let_def abs_le_iff)
qed

lemma round_to_error:
  assumes "0 < x" and "pow2 emin \<le> x"
  shows "\<bar>round_to p emin x - x\<bar> \<le> x / 2 ^ p"
proof -
  let ?e = "max (ilog2 x) emin"
  let ?u = "pow2 (?e - int p + 1)"
  have u: "0 < ?u"
    by (rule pow2_pos)
  have e: "pow2 ?e \<le> x"
    using ilog2_lower [OF assms(1)] assms(2) by (simp add: max_def)
  have r: "round_to p emin x = of_int (rne (x / ?u)) * ?u"
    using assms(1) by (simp add: round_to_def Let_def)
  have "of_int (rne (x / ?u)) * ?u - x = (of_int (rne (x / ?u)) - x / ?u) * ?u"
    using u by (simp add: field_simps)
  then have "\<bar>of_int (rne (x / ?u)) * ?u - x\<bar> = \<bar>of_int (rne (x / ?u)) - x / ?u\<bar> * ?u"
    using u by (simp add: abs_mult)
  also have "\<dots> \<le> 1 / 2 * ?u"
    using u rne_error [of "x / ?u"] by (intro mult_right_mono) simp_all
  also have "1 / 2 * ?u = pow2 ?e / 2 ^ p"
    using pow2_diff [of "?e + 1" "int p"] by (simp add: pow2_powi power_int_add algebra_simps)
  also have "\<dots> \<le> x / 2 ^ p"
    using e by (simp add: divide_right_mono)
  finally show ?thesis
    by (simp add: r)
qed


lemma theta_bounds: "0 < theta" "theta \<le> 1"
  by (simp_all add: theta_def)

lemma theta_pow_pos: "0 < theta ^ k"
  using theta_bounds(1) by simp

lemma theta_pow_le: "j \<le> k \<Longrightarrow> theta ^ k \<le> theta ^ j"
  using theta_bounds by (intro power_decreasing) simp_all

lemma near_pos: "near k x y \<Longrightarrow> 0 < y"
proof -
  assume n: "near k x y"
  then have "0 < x * theta ^ k"
    using theta_pow_pos [of k] by (simp add: near_def)
  with n show ?thesis
    by (simp add: near_def)
qed

lemma near_refl: "0 < x \<Longrightarrow> near 0 x x"
  by (simp add: near_def)

lemma near_mono:
  assumes "near j x y" and "j \<le> k"
  shows "near k x y"
proof -
  from assms(1) have x: "0 < x" and y: "0 < y"
    by (simp add: near_def, rule near_pos)
  have t: "theta ^ k \<le> theta ^ j"
    using assms(2) by (rule theta_pow_le)
  have "x * theta ^ k \<le> x * theta ^ j"
    using x t by (simp add: mult_left_mono)
  moreover have "y * theta ^ k \<le> y * theta ^ j"
    using y t by (simp add: mult_left_mono)
  ultimately show ?thesis
    using assms(1) unfolding near_def by linarith
qed

lemma near_trans:
  assumes "near j x y" and "near k y z"
  shows "near (j + k) x z"
proof -
  from assms have x: "0 < x" and a: "x * theta ^ j \<le> y" and b: "y * theta ^ j \<le> x"
    and c: "y * theta ^ k \<le> z" and d: "z * theta ^ k \<le> y"
    by (simp_all add: near_def)
  have "x * theta ^ (j + k) = (x * theta ^ j) * theta ^ k"
    by (simp add: power_add)
  also have "\<dots> \<le> y * theta ^ k"
    using a theta_pow_pos [of k] by (simp add: mult_right_mono)
  also note c
  finally have 1: "x * theta ^ (j + k) \<le> z" .
  have "z * theta ^ (j + k) = (z * theta ^ k) * theta ^ j"
    by (simp add: power_add)
  also have "\<dots> \<le> y * theta ^ j"
    using d theta_pow_pos [of j] by (simp add: mult_right_mono)
  also note b
  finally have 2: "z * theta ^ (j + k) \<le> x" .
  from x 1 2 show ?thesis
    by (simp add: near_def)
qed

lemma near_mult:
  assumes "near j a a'" and "near k b b'"
  shows "near (j + k) (a * b) (a' * b')"
proof -
  from assms have a: "0 < a" and b: "0 < b" and a': "0 < a'" and b': "0 < b'"
    by (simp_all add: near_def near_pos)
  from assms have 1: "a * theta ^ j \<le> a'" and 2: "a' * theta ^ j \<le> a"
    and 3: "b * theta ^ k \<le> b'" and 4: "b' * theta ^ k \<le> b"
    by (simp_all add: near_def)
  have "(a * theta ^ j) * (b * theta ^ k) \<le> a' * b'"
    using 1 3 a b a' b' theta_pow_pos [of j] theta_pow_pos [of k] by (intro mult_mono) simp_all
  then have l: "(a * b) * theta ^ (j + k) \<le> a' * b'"
    by (simp add: power_add mult_ac)
  have "(a' * theta ^ j) * (b' * theta ^ k) \<le> a * b"
    using 2 4 a b a' b' theta_pow_pos [of j] theta_pow_pos [of k] by (intro mult_mono) simp_all
  then have u: "(a' * b') * theta ^ (j + k) \<le> a * b"
    by (simp add: power_add mult_ac)
  from a b l u show ?thesis
    by (simp add: near_def)
qed

lemma near_inverse:
  assumes "near k b b'"
  shows "near k (1 / b) (1 / b')"
proof -
  from assms have b: "0 < b" and b': "0 < b'"
    by (simp_all add: near_def near_pos)
  from assms have 3: "b * theta ^ k \<le> b'" and 4: "b' * theta ^ k \<le> b"
    by (simp_all add: near_def)
  have "1 / b * theta ^ k \<le> 1 / b'"
    using 4 b b' by (simp add: field_simps)
  moreover have "1 / b' * theta ^ k \<le> 1 / b"
    using 3 b b' by (simp add: field_simps)
  ultimately show ?thesis
    using b by (simp add: near_def)
qed

lemma near_div:
  assumes "near j a a'" and "near k b b'"
  shows "near (j + k) (a / b) (a' / b')"
  using near_mult [OF assms(1) near_inverse [OF assms(2)]] by simp

lemma near_bounds:
  assumes "near k x y" and "k \<le> 8"
  shows "x * (1 - 1 / 2 ^ 20) \<le> y" and "y \<le> x * (1 + 1 / 2 ^ 20)"
proof -
  from near_mono [OF assms] have x: "0 < x" and l: "x * theta ^ 8 \<le> y" and u: "y * theta ^ 8 \<le> x"
    by (simp_all add: near_def)
  from assms(1) have y: "0 < y"
    by (rule near_pos)
  have t1: "1 - 1 / 2 ^ 20 \<le> theta ^ 8"
    by (simp add: theta_def power_divide)
  have t2: "1 \<le> (1 + 1 / 2 ^ 20) * theta ^ 8"
    by (simp add: theta_def power_divide)
  have "x * (1 - 1 / 2 ^ 20) \<le> x * theta ^ 8"
    using x t1 by (intro mult_left_mono) simp_all
  with l show "x * (1 - 1 / 2 ^ 20) \<le> y"
    by simp
  have "y * 1 \<le> y * ((1 + 1 / 2 ^ 20) * theta ^ 8)"
    using y t2 by (intro mult_left_mono) simp_all
  also have "\<dots> = (y * theta ^ 8) * (1 + 1 / 2 ^ 20)"
    by (simp add: mult_ac)
  also have "\<dots> \<le> x * (1 + 1 / 2 ^ 20)"
    using u by (intro mult_right_mono) simp_all
  finally show "y \<le> x * (1 + 1 / 2 ^ 20)"
    by simp
qed

lemma near_round:
  assumes "1 / 2 ^ 126 \<le> x" and "x \<le> 2 ^ 127"
  shows "\<exists>y. to_float x = Finite y \<and> near 1 x y"
proof -
  from assms(1) have x: "0 < x"
    by (rule less_le_trans [rotated]) simp
  have "pow2 (- 126) \<le> x"
    using assms(1) by (simp add: pow2_def)
  from round_to_error [OF x this, of 24]
  have e: "\<bar>round_to 24 (- 126) x - x\<bar> \<le> x / 2 ^ 24" .
  let ?y = "round_to 24 (- 126) x"
  from e have "x - x / 2 ^ 24 \<le> ?y" and "?y \<le> x + x / 2 ^ 24"
    unfolding abs_le_iff by linarith+
  then have l: "x * theta \<le> ?y" and u: "?y \<le> x * (1 + 1 / 2 ^ 24)"
    by (simp_all add: theta_def algebra_simps)
  have "?y * theta \<le> (x * (1 + 1 / 2 ^ 24)) * theta"
    using u theta_bounds(1) by (intro mult_right_mono) simp_all
  also have "\<dots> = x * ((1 + 1 / 2 ^ 24) * theta)"
    by (simp add: mult_ac)
  also have "\<dots> \<le> x * 1"
    using x by (intro mult_left_mono) (simp_all add: theta_def)
  finally have u': "?y * theta \<le> x"
    by simp
  have "x * (1 + 1 / 2 ^ 24) \<le> 2 ^ 127 * (1 + 1 / 2 ^ 24)"
    using assms(2) by (intro mult_right_mono) simp_all
  also have "\<dots> < 2 ^ 128"
    by simp
  finally have "?y < 2 ^ 128"
    using u by simp
  moreover have "0 \<le> ?y"
    using l x theta_bounds(1) by (meson less_imp_le mult_nonneg_nonneg order_trans)
  ultimately have "\<not> 2 ^ 128 \<le> \<bar>?y\<bar>"
    by simp
  then have "to_float x = Finite ?y"
    by (simp add: to_float_def Let_def)
  with x l u' show ?thesis
    by (simp add: near_def)
qed


lemma f_mul_near:
  assumes "near j a a'" and "near k b b'" and "j + k \<le> 7"
    and "1 / 2 ^ 100 \<le> a * b" and "a * b \<le> 2 ^ 100" and "n = Suc (j + k)"
  shows "\<exists>y. f_mul (Finite a') (Finite b') = Finite y \<and> near n (a * b) y"
proof -
  have n: "near (j + k) (a * b) (a' * b')"
    using assms(1,2) by (rule near_mult)
  have k8: "j + k \<le> 8"
    using assms(3) by simp
  have "1 / 2 ^ 126 \<le> (1 / 2 ^ 100) * (1 - 1 / 2 ^ 20 :: rat)"
    by simp
  also have "\<dots> \<le> (a * b) * (1 - 1 / 2 ^ 20)"
    using assms(4) by (intro mult_right_mono) simp_all
  also note near_bounds(1) [OF n k8]
  finally have lo: "1 / 2 ^ 126 \<le> a' * b'" .
  note near_bounds(2) [OF n k8]
  also have "(a * b) * (1 + 1 / 2 ^ 20) \<le> 2 ^ 100 * (1 + 1 / 2 ^ 20)"
    using assms(5) by (intro mult_right_mono) simp_all
  also have "\<dots> \<le> 2 ^ 127"
    by simp
  finally have hi: "a' * b' \<le> 2 ^ 127" .
  from near_round [OF lo hi] obtain y where "to_float (a' * b') = Finite y" and "near 1 (a' * b') y"
    by blast
  with near_trans [OF n, of 1 y] assms(6) show ?thesis
    by (simp add: f_mul.simps)
qed

lemma f_div_near:
  assumes "near j a a'" and "near k b b'" and "j + k \<le> 7"
    and "1 / 2 ^ 100 \<le> a / b" and "a / b \<le> 2 ^ 100" and "n = Suc (j + k)"
  shows "\<exists>y. f_div (Finite a') (Finite b') = Finite y \<and> near n (a / b) y"
proof -
  have n: "near (j + k) (a / b) (a' / b')"
    using assms(1,2) by (rule near_div)
  have k8: "j + k \<le> 8"
    using assms(3) by simp
  have b': "b' \<noteq> 0"
    using near_pos [OF assms(2)] by simp
  have "1 / 2 ^ 126 \<le> (1 / 2 ^ 100) * (1 - 1 / 2 ^ 20 :: rat)"
    by simp
  also have "\<dots> \<le> (a / b) * (1 - 1 / 2 ^ 20)"
    using assms(4) by (intro mult_right_mono) simp_all
  also note near_bounds(1) [OF n k8]
  finally have lo: "1 / 2 ^ 126 \<le> a' / b'" .
  note near_bounds(2) [OF n k8]
  also have "(a / b) * (1 + 1 / 2 ^ 20) \<le> 2 ^ 100 * (1 + 1 / 2 ^ 20)"
    using assms(5) by (intro mult_right_mono) simp_all
  also have "\<dots> \<le> 2 ^ 127"
    by simp
  finally have hi: "a' / b' \<le> 2 ^ 127" .
  from near_round [OF lo hi] obtain y where "to_float (a' / b') = Finite y" and "near 1 (a' / b') y"
    by blast
  with near_trans [OF n, of 1 y] b' assms(6) show ?thesis
    by (simp add: f_div.simps)
qed

lemma uint32_range: "0 \<le> uint (n :: 32 word)" "uint (n :: 32 word) < 2 ^ 32"
  using unsigned_less [of n, where 'a = int] by simp_all

lemma u32_to_float_near:
  assumes "1 \<le> uint n"
  shows "\<exists>y. u32_to_float n = Finite y \<and> near 1 (of_int (uint n)) y"
proof -
  have "(of_int 1 :: rat) \<le> of_int (uint n)"
    using assms by (simp only: of_int_le_iff)
  then have "(1 :: rat) \<le> of_int (uint n)"
    by (simp only: of_int_1)
  then have lo: "1 / 2 ^ 126 \<le> (of_int (uint n) :: rat)"
    by (rule order_trans [rotated]) simp
  have "uint n \<le> 2 ^ 32"
    using uint32_range(2) [of n] by simp
  then have "(of_int (uint n) :: rat) \<le> of_int (2 ^ 32)"
    by (simp only: of_int_le_iff)
  then have "(of_int (uint n) :: rat) \<le> 2 ^ 32"
    by (simp only: of_int_power of_int_numeral)
  then have hi: "(of_int (uint n) :: rat) \<le> 2 ^ 127"
    by (rule order_trans) simp
  from near_round [OF lo hi] show ?thesis
    by (simp add: u32_to_float_def)
qed

lemma double_to_u32_floor:
  assumes "0 \<le> y" and "y < 2 ^ 32"
  shows "uint (double_to_u32 undef (c_floor (Finite y))) = \<lfloor>y\<rfloor>"
proof -
  have k0: "0 \<le> \<lfloor>y\<rfloor>"
    using assms(1) by simp
  have k2: "\<lfloor>y\<rfloor> < 2 ^ 32"
    using assms(2) by (simp add: floor_less_iff)
  then have "(of_int \<lfloor>y\<rfloor> :: rat) < of_int (2 ^ 32)"
    by (simp only: of_int_less_iff)
  then have k1: "(of_int \<lfloor>y\<rfloor> :: rat) < 2 ^ 32"
    by (simp only: of_int_power of_int_numeral)
  have k0r: "(0 :: rat) \<le> of_int \<lfloor>y\<rfloor>"
    using k0 by (simp only: of_int_0_le_iff)
  then have km: "- 1 < (of_int \<lfloor>y\<rfloor> :: rat)"
    by linarith
  have u: "uint (word_of_int \<lfloor>y\<rfloor> :: 32 word) = \<lfloor>y\<rfloor>"
    using k0 k2 by (simp add: uint_word_of_int_eq take_bit_int_eq_self)
  have "c_floor (Finite y) = Finite (of_int \<lfloor>y\<rfloor>)"
    by (simp add: c_floor_def)
  moreover have "double_to_u32 undef (Finite (of_int \<lfloor>y\<rfloor>)) = word_of_int \<lfloor>y\<rfloor>"
    by (simp only: double_to_u32_def cfloat.simps km k1 k0r simp_thms if_True floor_of_int)
  ultimately show ?thesis
    using u by simp
qed

lemma floor_near:
  assumes "near k x y" and "k \<le> 8"
    and "of_int L \<le> x * (1 - 1 / 2 ^ 20)" and "x * (1 + 1 / 2 ^ 20) < of_int U + 1"
    and "U < 2 ^ 32"
  shows "L \<le> uint (double_to_u32 undef (c_floor (Finite y)))"
    and "uint (double_to_u32 undef (c_floor (Finite y))) \<le> U"
proof -
  have y0: "0 \<le> y"
    using near_pos [OF assms(1)] by simp
  have lo: "of_int L \<le> y"
    using near_bounds(1) [OF assms(1,2)] assms(3) by simp
  have hi: "y < of_int U + 1"
    using near_bounds(2) [OF assms(1,2)] assms(4) by simp
  have "U + 1 \<le> 2 ^ 32"
    using assms(5) by simp
  then have "(of_int (U + 1) :: rat) \<le> of_int (2 ^ 32)"
    by (simp only: of_int_le_iff)
  then have "(of_int U + 1 :: rat) \<le> 2 ^ 32"
    by simp
  with hi have "y < 2 ^ 32"
    by simp
  from double_to_u32_floor [OF y0 this]
  have r: "uint (double_to_u32 undef (c_floor (Finite y))) = \<lfloor>y\<rfloor>" .
  have "L \<le> \<lfloor>y\<rfloor>"
    using lo by (simp add: le_floor_iff)
  then show "L \<le> uint (double_to_u32 undef (c_floor (Finite y)))"
    by (simp only: r)
  have "\<lfloor>y\<rfloor> \<le> U"
    using hi by (simp add: floor_le_iff)
  then show "uint (double_to_u32 undef (c_floor (Finite y))) \<le> U"
    by (simp only: r)
qed

lemma to_float_zero: "to_float 0 = Finite 0"
  by (simp add: to_float_def round_to_def)

lemma u32_to_float_zero: "u32_to_float 0 = Finite 0"
  by (simp add: u32_to_float_def to_float_zero)

lemma zero_scaled: "double_to_u32 undef (c_floor (f_mul (Finite 0) (Finite q))) = 0"
  by (simp add: f_mul.simps to_float_zero c_floor_def double_to_u32_def)

lemma u64_to_float_8192: "u64_to_float 8192 = Finite 8192"
  by code_simp


lemma uint_ucast_32_64: "uint (ucast (w :: 32 word) :: 64 word) = uint w"
  by (rule uint_up_ucast) (simp add: is_up)

lemma canvas_less: "((8192 :: 64 word) < ucast (w :: 32 word)) = (8192 < uint w)"
  by (simp add: word_less_def uint_ucast_32_64)

lemma buffer_le: "((2 ^ 27 :: 64 word) \<le> ucast (w :: 32 word)) = (2 ^ 27 \<le> uint w)"
  by (simp add: word_le_def uint_ucast_32_64)

lemma rat_of_uint_ge: "l \<le> uint (n :: 32 word) \<Longrightarrow> (of_int l :: rat) \<le> of_int (uint n)"
  by (simp only: of_int_le_iff)

lemma rat_of_uint_le: "uint (n :: 32 word) \<le> u \<Longrightarrow> (of_int (uint n) :: rat) \<le> of_int u"
  by (simp only: of_int_le_iff)

lemma scaled_by_canvas_ratio:
  assumes big: "8192 < uint big"
  shows "uint (double_to_u32 undef (c_floor (f_mul (u32_to_float big)
             (f_div (u64_to_float 8192) (u32_to_float big))))) \<le> 8192"
    and "uint (double_to_u32 undef (c_floor (f_mul (u32_to_float small)
             (f_div (u64_to_float 8192) (u32_to_float big))))) \<le> uint small"
proof -
  define B :: rat where "B = of_int (uint big)"
  define S :: rat where "S = of_int (uint small)"
  have B1: "8193 \<le> B"
    using rat_of_uint_ge [of 8193 big] big by (simp add: B_def del: of_int_uint)
  have B2: "B \<le> 2 ^ 32"
    using rat_of_uint_le [of big "2 ^ 32"] uint32_range(2) [of big]
    by (simp add: B_def del: of_int_uint)
  have Bpos: "0 < B"
    using B1 by simp
  have big1: "1 \<le> uint big"
    using big by simp
  obtain fb where fb: "u32_to_float big = Finite fb" "near 1 B fb"
    using u32_to_float_near [OF big1] unfolding B_def by auto
  have c: "near 0 8192 (8192 :: rat)"
    by (rule near_refl) simp
  have q1: "1 / 2 ^ 100 \<le> 8192 / B"
    using Bpos B2 by (simp add: field_simps)
  have q2: "8192 / B \<le> 2 ^ 100"
    using Bpos B1 by (simp add: field_simps)
  obtain q where q: "f_div (Finite 8192) (Finite fb) = Finite q" "near 2 (8192 / B) q"
    using f_div_near [OF c fb(2) _ q1 q2, of 2] by auto
  have w0: "B * (8192 / B) = 8192"
    using Bpos by simp
  obtain y where y: "f_mul (Finite fb) (Finite q) = Finite y" "near 4 (B * (8192 / B)) y"
    using f_mul_near [OF fb(2) q(2), of 4] w0 by auto
  from y(2) have y4: "near 4 8192 y"
    by (simp only: w0)
  have "uint (double_to_u32 undef (c_floor (Finite y))) \<le> 8192"
    using y4 by (rule floor_near(2) [where L = 0]) simp_all
  then show "uint (double_to_u32 undef (c_floor (f_mul (u32_to_float big)
             (f_div (u64_to_float 8192) (u32_to_float big))))) \<le> 8192"
    by (simp only: fb(1) q(1) y(1) u64_to_float_8192)
  show "uint (double_to_u32 undef (c_floor (f_mul (u32_to_float small)
             (f_div (u64_to_float 8192) (u32_to_float big))))) \<le> uint small"
  proof (cases "uint small = 0")
    case True
    then have "small = 0"
      by (simp add: uint_0_iff)
    then show ?thesis
      by (simp add: fb(1) q(1) u64_to_float_8192 u32_to_float_zero zero_scaled)
  next
    case False
    then have small: "1 \<le> uint small"
      using uint32_range(1) [of small] by linarith
    have S1: "1 \<le> S"
      using rat_of_uint_ge [of 1 small] small by (simp add: S_def del: of_int_uint)
    have S2: "S \<le> 2 ^ 32"
      using rat_of_uint_le [of small "2 ^ 32"] uint32_range(2) [of small]
      by (simp add: S_def del: of_int_uint)
    obtain fs where fs: "u32_to_float small = Finite fs" "near 1 S fs"
      using u32_to_float_near [OF small] unfolding S_def by auto
    have h1: "1 / 2 ^ 100 \<le> S * (8192 / B)"
    proof -
      have "1 / 2 ^ 100 \<le> 8192 / B"
        by (rule q1)
      also have "\<dots> = 1 * (8192 / B)"
        by simp
      also have "\<dots> \<le> S * (8192 / B)"
        using S1 Bpos by (intro mult_right_mono) simp_all
      finally show ?thesis .
    qed
    have r1: "8192 / B \<le> 8192 / 8193"
      using B1 by (intro divide_left_mono) simp_all
    have h3: "S * (8192 / B) \<le> S * (8192 / 8193)"
      using r1 S1 by (intro mult_left_mono) simp_all
    have h2: "S * (8192 / B) \<le> 2 ^ 100"
      using h3 S2 by simp
    obtain z where z: "f_mul (Finite fs) (Finite q) = Finite z" "near 4 (S * (8192 / B)) z"
      using f_mul_near [OF fs(2) q(2) _ h1 h2, of 4] by auto
    have "S * (8192 / B) * (1 + 1 / 2 ^ 20) \<le> S * (8192 / 8193) * (1 + 1 / 2 ^ 20)"
      using h3 by (intro mult_right_mono) simp_all
    also have "\<dots> = S * (8192 / 8193 * (1 + 1 / 2 ^ 20))"
      by simp
    also have "\<dots> \<le> S * 1"
      using S1 by (intro mult_left_mono) simp_all
    finally have up: "S * (8192 / B) * (1 + 1 / 2 ^ 20) < of_int (uint small) + 1"
      by (simp add: S_def del: of_int_uint)
    have "0 \<le> S * (8192 / B) * (1 - 1 / 2 ^ 20)"
      using S1 Bpos by simp
    then have lo: "of_int 0 \<le> S * (8192 / B) * (1 - 1 / 2 ^ 20)"
      by simp
    have "uint (double_to_u32 undef (c_floor (Finite z))) \<le> uint small"
      using z(2) _ lo up uint32_range(2) [of small] by (rule floor_near(2)) simp
    then show ?thesis
      by (simp only: fb(1) fs(1) q(1) z(1) u64_to_float_8192)
  qed
qed

lemma unscaled:
  assumes "uint n \<le> 8192"
  shows "uint (double_to_u32 undef (c_floor (f_mul (u32_to_float n) (Finite 1)))) \<le> uint n"
proof (cases "uint n = 0")
  case True
  then have "n = 0"
    by (simp add: uint_0_iff)
  then show ?thesis
    by (simp add: u32_to_float_zero zero_scaled)
next
  case False
  then have n1: "1 \<le> uint n"
    using uint32_range(1) [of n] by linarith
  define N :: rat where "N = of_int (uint n)"
  have N1: "1 \<le> N"
    using rat_of_uint_ge [of 1 n] n1 by (simp add: N_def del: of_int_uint)
  have N2: "N \<le> 8192"
    using rat_of_uint_le [of n 8192] assms by (simp add: N_def del: of_int_uint)
  obtain f where f: "u32_to_float n = Finite f" "near 1 N f"
    using u32_to_float_near [OF n1] unfolding N_def by auto
  have one: "near 0 1 (1 :: rat)"
    by (rule near_refl) simp
  have "1 / 2 ^ 100 \<le> N * 1" and "N * 1 \<le> 2 ^ 100"
    using N1 N2 by simp_all
  then obtain y where y: "f_mul (Finite f) (Finite 1) = Finite y" "near 2 (N * 1) y"
    using f_mul_near [OF f(2) one, of 2] by auto
  have lo: "of_int 0 \<le> N * 1 * (1 - 1 / 2 ^ 20)"
    using N1 by simp
  have "N * 1 * (1 + 1 / 2 ^ 20) < N + 1"
    using N2 by (simp add: algebra_simps)
  then have up: "N * 1 * (1 + 1 / 2 ^ 20) < of_int (uint n) + 1"
    by (simp only: N_def)
  have "uint (double_to_u32 undef (c_floor (Finite y))) \<le> uint n"
    using y(2) _ lo up uint32_range(2) [of n] by (rule floor_near(2)) simp
  then show ?thesis
    by (simp only: f(1) y(1))
qed

text \<open>
  With limits of 128 MiB and 8192, \<^verbatim>\<open>get_valid_dimensions\<close> keeps within both limits
  whenever one of the requested dimensions is at most 2048, whatever the other is.
\<close>

lemma get_valid_dimensions_bounded:
  assumes m: "uint w \<le> 2048 \<or> uint h \<le> 2048"
  shows "uint (width (get_valid_dimensions undef w h (2 ^ 27) 8192)) \<le> 8192
     \<and> uint (height (get_valid_dimensions undef w h (2 ^ 27) 8192)) \<le> 8192
     \<and> uint (width (get_valid_dimensions undef w h (2 ^ 27) 8192))
         * uint (height (get_valid_dimensions undef w h (2 ^ 27) 8192)) * 4 \<le> 2 ^ 27"
proof -
  have prod: "a * b * 4 \<le> 2 ^ 27" if "0 \<le> a" "0 \<le> b" "a \<le> 8192" "b \<le> 2048" for a b :: int
  proof -
    have "a * b \<le> 8192 * 2048"
      using that by (intro mult_mono) simp_all
    then show ?thesis
      by simp
  qed
  consider (wide) "8192 < uint w" | (tall) "uint w \<le> 8192" "8192 < uint h"
    | (fits) "uint w \<le> 8192" "uint h \<le> 8192"
    by linarith
  then show ?thesis
  proof cases
    case wide
    with m have hs: "uint h \<le> 2048"
      by simp
    define r1 where "r1 = double_to_u32 undef (c_floor (f_mul (u32_to_float w)
                   (f_div (u64_to_float 8192) (u32_to_float w))))"
    define r2 where "r2 = double_to_u32 undef (c_floor (f_mul (u32_to_float h)
                   (f_div (u64_to_float 8192) (u32_to_float w))))"
    have b1: "uint r1 \<le> 8192" and b2: "uint r2 \<le> uint h"
      unfolding r1_def r2_def by (rule scaled_by_canvas_ratio [OF wide])+
    have e: "get_valid_dimensions undef w h (2 ^ 27) 8192
        = \<lparr>width = r1, height = r2, depthOrArrayLayers = 0\<rparr>"
      using wide by (simp add: get_valid_dimensions_def Let_def canvas_less r1_def r2_def)
    have "uint r1 * uint r2 * 4 \<le> 2 ^ 27"
      using b1 b2 hs uint32_range(1) [of r1] uint32_range(1) [of r2] by (intro prod) simp_all
    then show ?thesis
      unfolding e using b1 b2 hs by (simp add: mult_ac)
  next
    case tall
    with m have ws: "uint w \<le> 2048"
      by simp
    define r1 where "r1 = double_to_u32 undef (c_floor (f_mul (u32_to_float h)
                   (f_div (u64_to_float 8192) (u32_to_float h))))"
    define r2 where "r2 = double_to_u32 undef (c_floor (f_mul (u32_to_float w)
                   (f_div (u64_to_float 8192) (u32_to_float h))))"
    have b1: "uint r1 \<le> 8192" and b2: "uint r2 \<le> uint w"
      unfolding r1_def r2_def by (rule scaled_by_canvas_ratio [OF tall(2)])+
    have e: "get_valid_dimensions undef w h (2 ^ 27) 8192
        = \<lparr>width = r2, height = r1, depthOrArrayLayers = 0\<rparr>"
      using tall by (simp add: get_valid_dimensions_def Let_def canvas_less r1_def r2_def)
    have "uint r1 * uint r2 * 4 \<le> 2 ^ 27"
      using b1 b2 ws uint32_range(1) [of r1] uint32_range(1) [of r2] by (intro prod) simp_all
    then show ?thesis
      unfolding e using b1 b2 ws by (simp add: mult_ac)
  next
    case fits
    have w0: "0 \<le> uint w" and h0: "0 \<le> uint h"
      by (rule uint32_range(1))+
    have "uint w * uint h \<le> 8192 * 2048"
    proof (cases "uint w \<le> 2048")
      case True
      have "uint h * uint w \<le> 8192 * 2048"
        using True fits w0 h0 by (intro mult_mono) simp_all
      then show ?thesis
        by (simp add: mult.commute)
    next
      case False
      with m have "uint h \<le> 2048"
        by simp
      then show ?thesis
        using fits w0 h0 by (intro mult_mono) simp_all
    qed
    then have "uint w * uint h \<le> 16777216"
      by simp
    then have small': "uint w * uint h * 4 < 134217728"
      by linarith
    then have small: "uint w * uint h * 4 < 2 ^ 27"
      by simp
    have nonneg: "0 \<le> uint w * uint h * 4"
      using w0 h0 by simp
    have "uint (w * h * 4) = uint w * uint h * 4 mod 2 ^ 32"
      by (simp add: uint_word_ariths mod_mult_left_eq mod_simps)
    also have "\<dots> = uint w * uint h * 4"
      using small nonneg by (intro mod_pos_pos_trivial) simp_all
    finally have "\<not> 2 ^ 27 \<le> uint (w * h * 4)"
      using small by simp
    then have c1: "\<not> (2 ^ 27 :: 64 word) \<le> ucast (w * h * 4)"
      unfolding buffer_le .
    define r1 where "r1 = double_to_u32 undef (c_floor (f_mul (u32_to_float w) (Finite 1)))"
    define r2 where "r2 = double_to_u32 undef (c_floor (f_mul (u32_to_float h) (Finite 1)))"
    have b1: "uint r1 \<le> uint w"
      unfolding r1_def using fits(1) by (rule unscaled)
    have b2: "uint r2 \<le> uint h"
      unfolding r2_def using fits(2) by (rule unscaled)
    have e: "get_valid_dimensions undef w h (2 ^ 27) 8192
        = \<lparr>width = r1, height = r2, depthOrArrayLayers = 0\<rparr>"
      using fits c1 by (simp add: get_valid_dimensions_def Let_def canvas_less r1_def r2_def)
    have "uint r1 * uint r2 \<le> uint w * uint h"
      using b1 b2 w0 h0 uint32_range(1) [of r1] uint32_range(1) [of r2]
      by (intro mult_mono) simp_all
    then have "uint r1 * uint r2 * 4 \<le> 134217728"
      using small' by linarith
    then have "uint r1 * uint r2 * 4 \<le> 2 ^ 27"
      by simp
    moreover have "uint r1 \<le> 8192" and "uint r2 \<le> 8192"
      using b1 b2 fits by simp_all
    ultimately show ?thesis
      unfolding e by (simp add: mult_ac)
  qed
qed

text \<open>
  \<^verbatim>\<open>get_preferred_dimensions\<close> always passes its size argument as one of the two requested
  dimensions; the other is the converted \<^verbatim>\<open>floor\<close>, whatever the surface.
\<close>

lemma get_preferred_dimensions_bounded:
  assumes "uint sz \<le> 2048"
  shows "uint (width (get_preferred_dimensions undef sz ctx (2 ^ 27) 8192)) \<le> 8192
     \<and> uint (height (get_preferred_dimensions undef sz ctx (2 ^ 27) 8192)) \<le> 8192
     \<and> uint (width (get_preferred_dimensions undef sz ctx (2 ^ 27) 8192))
         * uint (height (get_preferred_dimensions undef sz ctx (2 ^ 27) 8192)) * 4 \<le> 2 ^ 27"
proof (cases "surface_height ctx < surface_width ctx")
  case True
  let ?w = "double_to_u32 undef (c_floor (f_mul (u32_to_float sz)
      (f_div (u32_to_float (surface_width ctx)) (u32_to_float (surface_height ctx)))))"
  have "get_preferred_dimensions undef sz ctx (2 ^ 27) 8192
      = get_valid_dimensions undef ?w sz (2 ^ 27) 8192"
    using True by (simp add: get_preferred_dimensions_def Let_def)
  moreover have "uint ?w \<le> 2048 \<or> uint sz \<le> 2048"
    using assms by simp
  ultimately show ?thesis
    using get_valid_dimensions_bounded [of ?w sz undef] by (simp only:)
next
  case False
  let ?h = "double_to_u32 undef (c_floor (f_div (u32_to_float sz)
      (f_div (u32_to_float (surface_width ctx)) (u32_to_float (surface_height ctx)))))"
  have "get_preferred_dimensions undef sz ctx (2 ^ 27) 8192
      = get_valid_dimensions undef sz ?h (2 ^ 27) 8192"
    using False by (simp add: get_preferred_dimensions_def Let_def)
  moreover have "uint sz \<le> 2048 \<or> uint ?h \<le> 2048"
    using assms by simp
  ultimately show ?thesis
    using get_valid_dimensions_bounded [of sz ?h undef] by (simp only:)
qed

section \<open>Sizes within the device limits\<close>

text \<open>
  C4 does not hold of the code. When both dimensions exceed \<open>max_canvas_size\<close> and the
  height is the larger one, \<^verbatim>\<open>get_valid_dimensions\<close> still scales by
  \<open>max_canvas_size / w\<close>: the \<^verbatim>\<open>else if\<close> for the height is not reached. For 16384 by
  32768 with limits 128 MiB and 8192 the ratio is 1/2, not 8192 / 32768 = 1/4, and the
  returned height 16384 exceeds 8192. Every floating-point operation on this input is
  exact, and no conversion is out of range.
\<close>

theorem get_valid_dimensions_height_exceeds_canvas:
  "get_valid_dimensions undef 16384 32768 (2 ^ 27) 8192
     = \<lparr>width = 8192, height = 16384, depthOrArrayLayers = 0\<rparr>"
  by code_simp

text \<open>
  C5 does not hold of the code. The ratio \<open>sqrt (max_buffer_size / (w * h * 4))\<close> is
  overwritten when a dimension exceeds \<open>max_canvas_size\<close>, also by a larger ratio. For
  16384 by 16384 with limits 128 MiB and 8192 the buffer ratio would be \<open>sqrt (1/8)\<close>;
  the canvas ratio 1/2 replaces it, and the returned 8192 by 8192 needs \<open>2\<^sup>2\<^sup>8\<close> bytes,
  twice the limit. No conversion is out of range.
\<close>

theorem get_valid_dimensions_exceeds_buffer:
  "get_valid_dimensions undef 16384 16384 (2 ^ 27) 8192
     = \<lparr>width = 8192, height = 8192, depthOrArrayLayers = 0\<rparr>"
  by code_simp

text \<open>
  C10. With \<open>grid_size = 512\<close>, \<open>dye_size = 2048\<close> and device limits of 128 MiB and 8192,
  for every surface width and height the grid and dye sizes that \<^verbatim>\<open>init_sizes\<close> stores
  satisfy \<open>w * h * 4 \<le> 2\<^sup>2\<^sup>7\<close>, \<open>w \<le> 8192\<close> and \<open>h \<le> 8192\<close>. This includes the empty
  surfaces and the extreme aspect ratios on which a conversion to \<^verbatim>\<open>uint32_t\<close> is out of
  range: the bounds hold whatever word such a conversion yields.
\<close>

theorem init_sizes_within_limits:
  assumes "adapter_limits ctx = Some (2 ^ 27, 8192)"
    and "grid_size s = 512" and "dye_size s = 2048"
  shows "sizes_within_limits (init_sizes undef ctx s)"
proof -
  have g: "uint (512 :: 32 word) \<le> 2048" and d: "uint (2048 :: 32 word) \<le> 2048"
    by simp_all
  note G = get_preferred_dimensions_bounded [OF g, of undef ctx]
  note D = get_preferred_dimensions_bounded [OF d, of undef ctx]
  have "init_sizes undef ctx s =
      s\<lparr>grid_w := width (get_preferred_dimensions undef 512 ctx (2 ^ 27) 8192),
        grid_h := height (get_preferred_dimensions undef 512 ctx (2 ^ 27) 8192),
        dye_w := width (get_preferred_dimensions undef 2048 ctx (2 ^ 27) 8192),
        dye_h := height (get_preferred_dimensions undef 2048 ctx (2 ^ 27) 8192),
        rdx := 2048, dye_rdx := 8192, dx := f_div (Finite 1) (u32_to_float 2048)\<rparr>"
    using assms by (simp add: init_sizes_def Let_def)
  then show ?thesis
    using G D by (simp add: sizes_within_limits_def)
qed

theorem init_sizes_within_limits_witness:
  "adapter_limits (context0\<lparr>surface_height := 0\<rparr>) = Some (2 ^ 27, 8192)
   \<and> grid_size settings = 512 \<and> dye_size settings = 2048
   \<and> sizes_within_limits (init_sizes (\<lambda>x. 0) (context0\<lparr>surface_height := 0\<rparr>) settings)"
proof -
  have a: "adapter_limits (context0\<lparr>surface_height := 0\<rparr>) = Some (2 ^ 27, 8192)"
    by (simp add: context0_def)
  have g: "grid_size settings = 512" and d: "dye_size settings = 2048"
    by (simp_all add: settings_def)
  from a g d init_sizes_within_limits [OF a g d, of "\<lambda>x. 0"] show ?thesis
    by (intro conjI)
qed

text \<open>
  Two runs: on the 1280 by 720 surface no conversion is out of range and the result does
  not depend on \<open>undef\<close>; on a surface of height 0 the aspect ratio is infinite, the
  preferred width is the word \<open>undef\<close> gives for the infinity, and that word, here 0, is
  what is stored.
\<close>

lemma init_sizes_on_1280_by_720:
  "init_sizes undef context0 settings =
     \<lparr>grid_size = 512, grid_w = 910, grid_h = 512, dye_size = 2048, dye_w = 3640,
      dye_h = 2048, rdx = 2048, dye_rdx = 8192, dx = Finite (1 / 2048)\<rparr>"
  by code_simp

lemma init_sizes_on_empty_surface:
  "init_sizes (\<lambda>x. 0) (context0\<lparr>surface_height := 0\<rparr>) settings =
     \<lparr>grid_size = 512, grid_w = 0, grid_h = 512, dye_size = 2048, dye_w = 0,
      dye_h = 2048, rdx = 2048, dye_rdx = 8192, dx = Finite (1 / 2048)\<rparr>"
  by code_simp

end
